theory Spec2Isabelle
  imports Complex_Main "HOL-Library.Word"
begin

section \<open>Transform library (examples/SpinningCubes/main.c, lines 30-103)\<close>

text \<open>
  The C code computes on \<open>float\<close>. In this section the model computes on \<open>real\<close>:
  rounding is outside the model of the matrices. Where the C code divides, the model says when the divisor is zero (the C
  result is then an infinity or a NaN, which no real number stands for).

  \<open>typedef struct { float m[16]; } Mat4\<close> is a list of 16 numbers, row-major.
\<close>

type_synonym Mat4 = "real list"

record Vec3 =
  vec_x :: real
  vec_y :: real
  vec_z :: real

definition Mat4_Identity :: Mat4 where
  "Mat4_Identity = [1,0,0,0, 0,1,0,0, 0,0,1,0, 0,0,0,1]"

text \<open>
  The three nested loops of \<open>Mat4_Multiply\<close>, over \<open>i\<close>, \<open>j\<close> and \<open>k\<close>, each
  from 0 to 3, adding into \<open>result.m[i * 4 + j]\<close>, which starts at zero.
\<close>

definition Mat4_Multiply :: "Mat4 \<Rightarrow> Mat4 \<Rightarrow> Mat4" where
  "Mat4_Multiply a b =
     foldl (\<lambda>r i. foldl (\<lambda>r j. foldl (\<lambda>r k.
         r[i * 4 + j := r ! (i * 4 + j) + a ! (i * 4 + k) * b ! (k * 4 + j)])
       r [0..<4]) r [0..<4]) (replicate 16 0) [0..<4]"

definition Mat4_Translation :: "real \<Rightarrow> real \<Rightarrow> real \<Rightarrow> Mat4" where
  "Mat4_Translation x y z = [1,0,0,0, 0,1,0,0, 0,0,1,0, x,y,z,1]"

definition Mat4_Scale :: "real \<Rightarrow> Mat4" where
  "Mat4_Scale s = [s,0,0,0, 0,s,0,0, 0,0,s,0, 0,0,0,1]"

definition Mat4_RotationY :: "real \<Rightarrow> Mat4" where
  "Mat4_RotationY rad =
     (let c = cos rad; s = sin rad in [c,0,-s,0, 0,1,0,0, s,0,c,0, 0,0,0,1])"

definition Mat4_RotationX :: "real \<Rightarrow> Mat4" where
  "Mat4_RotationX rad =
     (let c = cos rad; s = sin rad in [1,0,0,0, 0,c,s,0, 0,-s,c,0, 0,0,0,1])"

text \<open>\<open>XrFovf\<close> of the OpenXR headers: four half-angles in radians.\<close>

record XrFovf =
  angleLeft :: real
  angleRight :: real
  angleUp :: real
  angleDown :: real

text \<open>
  \<open>Mat4_Projection\<close>. The result is \<open>None\<close> where the real-number reading of the C
  expression has no value: a tangent at a pole, or one of the divisors \<open>w\<close>, \<open>h\<close>,
  \<open>farZ - nearZ\<close> equal to zero (the C code does not test them and stores the
  non-finite quotients in the matrix).
\<close>

definition Mat4_Projection :: "XrFovf \<Rightarrow> real \<Rightarrow> real \<Rightarrow> Mat4 option" where
  "Mat4_Projection fov nearZ farZ =
     (let tL = tan (angleLeft fov); tR = tan (angleRight fov);
          tU = tan (angleUp fov); tD = tan (angleDown fov);
          w = tR - tL; h = tU - tD
      in if cos (angleLeft fov) = 0 \<or> cos (angleRight fov) = 0
            \<or> cos (angleUp fov) = 0 \<or> cos (angleDown fov) = 0
            \<or> w = 0 \<or> h = 0 \<or> farZ - nearZ = 0
         then None
         else Some [2 / w, 0, 0, 0,
                    0, 2 / h, 0, 0,
                    (tR + tL) / w, (tU + tD) / h, - farZ / (farZ - nearZ), -1,
                    0, 0, - (farZ * nearZ) / (farZ - nearZ), 0])"

subsection \<open>The scene (lines 160-170) and the model matrix (lines 653-663)\<close>

definition NUM_CUBES :: nat where
  "NUM_CUBES = 5"

definition cubePositions :: "Vec3 list" where
  "cubePositions =
     [\<lparr>vec_x = 0, vec_y = 0, vec_z = -2\<rparr>,
      \<lparr>vec_x = -1.2, vec_y = 0.4, vec_z = -2.5\<rparr>,
      \<lparr>vec_x = 1.2, vec_y = 0.3, vec_z = -2.5\<rparr>,
      \<lparr>vec_x = -0.6, vec_y = -0.4, vec_z = -1.8\<rparr>,
      \<lparr>vec_x = 0.6, vec_y = -0.3, vec_z = -1.8\<rparr>]"

definition cubeScales :: "real list" where
  "cubeScales = [1.0, 0.6, 0.6, 0.5, 0.5]"

definition cubeSpeeds :: "real list" where
  "cubeSpeeds = [1.0, 1.5, -1.2, 2.0, -0.8]"

text \<open>
  The body of the loop over the cubes, up to the model matrix, for one instance given by
  its speed, scale and position:
  \<open>rot = animTime * speed\<close>, then
  \<open>Mat4_Multiply(Mat4_Multiply(Mat4_Multiply(scale, rotY), rotX), trans)\<close>.
\<close>

definition model_matrix :: "real \<Rightarrow> real \<Rightarrow> real \<Rightarrow> Vec3 \<Rightarrow> Mat4" where
  "model_matrix t speed scl pos =
     (let rot = t * speed;
          scale = Mat4_Scale scl;
          rotY = Mat4_RotationY rot;
          rotX = Mat4_RotationX (rot * 0.7);
          trans = Mat4_Translation (vec_x pos) (vec_y pos) (vec_z pos)
      in Mat4_Multiply (Mat4_Multiply (Mat4_Multiply scale rotY) rotX) trans)"

text \<open>The same for the cube at index \<open>cubeIdx\<close> of the scene arrays (\<open>cubeIdx < NUM_CUBES\<close>
  in the loop).\<close>

definition cube_model :: "real \<Rightarrow> nat \<Rightarrow> Mat4" where
  "cube_model t cubeIdx =
     model_matrix t (cubeSpeeds ! cubeIdx) (cubeScales ! cubeIdx) (cubePositions ! cubeIdx)"

text \<open>One pass of the loop over \<open>i\<close> in \<open>Mat4_Multiply\<close>: the row \<open>i\<close> of the result.\<close>

definition Mat4_row :: "Mat4 \<Rightarrow> Mat4 \<Rightarrow> Mat4 \<Rightarrow> nat \<Rightarrow> Mat4" where
  "Mat4_row a b r i =
     foldl (\<lambda>r j. foldl (\<lambda>r k.
         r[i * 4 + j := r ! (i * 4 + j) + a ! (i * 4 + k) * b ! (k * 4 + j)])
       r [0..<4]) r [0..<4]"

section \<open>Session and frame life cycle (examples/SpinningCubes/main.c, lines 126-158, 415-747)\<close>

subsection \<open>Data\<close>

text \<open>Handles (\<open>XrSession\<close>, \<open>XrSpace\<close>, \<open>XrSwapchain\<close>, pointers to image arrays) are
  numbers; 0 is \<open>XR_NULL_HANDLE\<close> and \<open>NULL\<close>.\<close>

type_synonym handle = nat

datatype XrSessionState =
    XR_SESSION_STATE_UNKNOWN
  | XR_SESSION_STATE_IDLE
  | XR_SESSION_STATE_READY
  | XR_SESSION_STATE_SYNCHRONIZED
  | XR_SESSION_STATE_VISIBLE
  | XR_SESSION_STATE_FOCUSED
  | XR_SESSION_STATE_STOPPING
  | XR_SESSION_STATE_LOSS_PENDING
  | XR_SESSION_STATE_EXITING

text \<open>What \<open>xrPollEvent\<close> stores in the event buffer: the type of the event and, for a
  change of session state, the new state. Every other type of event is
  \<open>XR_TYPE_EVENT_DATA_OTHER\<close>.\<close>

datatype XrEvent =
    XR_TYPE_EVENT_DATA_SESSION_STATE_CHANGED XrSessionState
  | XR_TYPE_EVENT_DATA_INSTANCE_LOSS_PENDING
  | XR_TYPE_EVENT_DATA_OTHER

record XrQuaternionf =
  quat_x :: real
  quat_y :: real
  quat_z :: real
  quat_w :: real

record XrVector3f =
  pos_x :: real
  pos_y :: real
  pos_z :: real

record XrPosef =
  orientation :: XrQuaternionf
  position :: XrVector3f

record XrView =
  pose :: XrPosef
  fov :: XrFovf

record XrExtent2Di =
  width :: int
  height :: int

record VRSwapchain =
  swapchain :: handle
  images :: handle
  size :: XrExtent2Di
  format :: nat
  imageCount :: nat

datatype XrStructureType =
    XR_TYPE_UNKNOWN
  | XR_TYPE_COMPOSITION_LAYER_PROJECTION_VIEW

record XrRect2Di =
  offset_x :: int
  offset_y :: int
  extent :: XrExtent2Di

record XrCompositionLayerProjectionView =
  view_type :: XrStructureType
  view_pose :: XrPosef
  view_fov :: XrFovf
  subImage_swapchain :: handle
  subImage_imageRect :: XrRect2Di
  subImage_imageArrayIndex :: nat

record XrCompositionLayerProjection =
  layer_space :: handle
  layer_viewCount :: nat
  layer_views :: "XrCompositionLayerProjectionView list"

datatype XrEnvironmentBlendMode =
    XR_ENVIRONMENT_BLEND_MODE_OPAQUE
  | XR_ENVIRONMENT_BLEND_MODE_ADDITIVE
  | XR_ENVIRONMENT_BLEND_MODE_ALPHA_BLEND

text \<open>\<open>layers\<close> is the one-element array \<open>layers[1]\<close>: \<open>None\<close> while it holds the null
  pointer, \<open>Some layer\<close> once \<open>layers[0] = &layer\<close> has run.\<close>

record XrFrameEndInfo =
  displayTime :: int
  environmentBlendMode :: XrEnvironmentBlendMode
  layerCount :: nat
  layers :: "XrCompositionLayerProjection option"

record XrFrameState =
  predictedDisplayTime :: int
  shouldRender :: bool

text \<open>The memory that \<open>SDL_calloc\<close> returns: every field zero.\<close>

definition zero_XrPosef :: XrPosef where
  "zero_XrPosef = \<lparr>orientation = \<lparr>quat_x = 0, quat_y = 0, quat_z = 0, quat_w = 0\<rparr>,
                   position = \<lparr>pos_x = 0, pos_y = 0, pos_z = 0\<rparr>\<rparr>"

definition zero_XrFovf :: XrFovf where
  "zero_XrFovf = \<lparr>angleLeft = 0, angleRight = 0, angleUp = 0, angleDown = 0\<rparr>"

definition zero_XrView :: XrView where
  "zero_XrView = \<lparr>pose = zero_XrPosef, fov = zero_XrFovf\<rparr>"

definition zero_VRSwapchain :: VRSwapchain where
  "zero_VRSwapchain = \<lparr>swapchain = 0, images = 0, size = \<lparr>width = 0, height = 0\<rparr>,
                       format = 0, imageCount = 0\<rparr>"

definition zero_ProjectionView :: XrCompositionLayerProjectionView where
  "zero_ProjectionView =
     \<lparr>view_type = XR_TYPE_UNKNOWN, view_pose = zero_XrPosef, view_fov = zero_XrFovf,
      subImage_swapchain = 0,
      subImage_imageRect = \<lparr>offset_x = 0, offset_y = 0, extent = \<lparr>width = 0, height = 0\<rparr>\<rparr>,
      subImage_imageArrayIndex = 0\<rparr>"

subsection \<open>Single-precision numbers\<close>

text \<open>
  The clock \<open>animTime\<close> is a C \<open>float\<close>, and \<open>animTime += 0.011f\<close> is an addition of
  IEEE 754 single-precision numbers with rounding to nearest, ties to even. A finite
  number is the real number it stands for (the two zeros are one); the infinities and
  the NaNs are \<open>NonFinite\<close>.

  \<open>float32_round x\<close> is the single-precision number nearest to \<open>x\<close>, for any exponent
  above the least. On the scale where the least positive number \<open>2 ^ - 149\<close> is 1, the
  numbers below \<open>2 ^ 24\<close> are spaced by 1, and the spacing doubles with every binade:
  \<open>float32_spacing m\<close> for the integer part \<open>m\<close> of the scaled magnitude.
\<close>

datatype float32 = Finite real | NonFinite

fun float32_spacing :: "nat \<Rightarrow> nat" where
  "float32_spacing m = (if m < 2 ^ 24 then 1 else 2 * float32_spacing (m div 2))"

declare float32_spacing.simps [simp del]

definition float32_round :: "real \<Rightarrow> real" where
  "float32_round x =
     (let y = \<bar>x\<bar> * 2 ^ 149;
          sp = real (float32_spacing (nat \<lfloor>y\<rfloor>));
          q = y / sp;
          f = \<lfloor>q\<rfloor>;
          n = (if q - of_int f < 1 / 2 then f
               else if 1 / 2 < q - of_int f then f + 1
               else if even f then f else f + 1)
      in sgn x * (of_int n * sp / 2 ^ 149))"

text \<open>The sum of two finite numbers is their exact sum, rounded; it is an infinity when
  the rounded sum reaches \<open>2 ^ 128\<close>. A sum with an infinity or a NaN is not finite.\<close>

fun float32_add :: "float32 \<Rightarrow> float32 \<Rightarrow> float32" where
  "float32_add (Finite x) (Finite y) =
     (let r = float32_round (x + y) in if \<bar>r\<bar> < 2 ^ 128 then Finite r else NonFinite)"
| "float32_add a b = NonFinite"

text \<open>The constant \<open>0.011f\<close>: the single-precision number nearest to 0.011.\<close>

definition clock_increment :: float32 where
  "clock_increment = Finite (float32_round (11 / 1000))"

subsection \<open>Global state\<close>

text \<open>The static variables. \<open>vrSwapchains\<close> is \<open>None\<close> while the pointer is \<open>NULL\<close>;
  \<open>xrViews\<close> is the empty list while its pointer is \<open>NULL\<close>; \<open>pipeline\<close> says that
  the pointer is not \<open>NULL\<close>. \<open>viewCount\<close> is a \<open>uint32_t\<close> that is only assigned,
  compared and counted up to.\<close>

record xr_state =
  xrSession :: handle
  xrLocalSpace :: handle
  xrSessionRunning :: bool
  xrShouldQuit :: bool
  vrSwapchains :: "VRSwapchain list option"
  xrViews :: "XrView list"
  viewCount :: nat
  pipeline :: bool
  animTime :: float32

text \<open>The state when \<open>main\<close> enters its loop, after \<open>InitXRSession\<close> has stored the
  session and the reference space.\<close>

definition initial_state :: "handle \<Rightarrow> handle \<Rightarrow> xr_state" where
  "initial_state session space =
     \<lparr>xrSession = session, xrLocalSpace = space, xrSessionRunning = False,
      xrShouldQuit = False, vrSwapchains = None, xrViews = [], viewCount = 0,
      pipeline = False, animTime = Finite 0\<rparr>"

subsection \<open>The calls made, and what the compositor answers\<close>

text \<open>
  A run is observed through the list of the calls it makes to the compositor (and to
  the SDL functions that create, draw into and destroy swapchains), in program order,
  each with its result where the program looks at it. \<open>MemoryFault\<close> marks an array
  index out of range, where the behaviour of the C program is undefined: the run ends there.
\<close>

datatype xr_call =
    XrBeginSession bool
  | XrEndSession
  | XrEnumerateViewConfigurationViews bool
  | SDL_CreateGPUXRSwapchain nat "handle option"
  | XrEnumerateSwapchainImages nat bool
  | CreatePipeline bool
  | CreateCubeBuffers bool
  | XrWaitFrame bool
  | XrBeginFrame bool
  | XrLocateViews bool
  | XrAcquireSwapchainImage nat handle bool
  | XrWaitSwapchainImage nat handle bool
  | SDL_RenderPass nat nat
  | XrReleaseSwapchainImage nat handle
  | XrEndFrame XrFrameEndInfo
  | SDL_DestroyGPUXRSwapchain handle
  | XrDestroySpace handle
  | XrDestroySession handle
  | MemoryFault

text \<open>
  The answers of the compositor while one event is handled: whether \<open>xrBeginSession\<close>
  succeeds, the count of the first \<open>xrEnumerateViewConfigurationViews\<close>, the recommended
  width and height of each view from the second, for each view the format, swapchain
  and image array from \<open>SDL_CreateGPUXRSwapchain\<close> and the count from
  \<open>xrEnumerateSwapchainImages\<close>, and whether \<open>CreatePipeline\<close> and \<open>CreateCubeBuffers\<close>
  succeed. \<open>None\<close> is a failed call.
\<close>

record session_env =
  beginSession_ok :: bool
  enumerateCount :: "nat option"
  enumerateViews :: "(nat \<times> nat) list option"
  createSwapchain :: "nat \<Rightarrow> (nat \<times> handle \<times> handle) option"
  enumerateImages :: "nat \<Rightarrow> nat option"
  createPipeline_ok :: bool
  createCubeBuffers_ok :: bool

text \<open>
  The answers during one call of \<open>RenderFrame\<close>: the frame state from \<open>xrWaitFrame\<close>,
  whether \<open>xrBeginFrame\<close> succeeds, the views from \<open>xrLocateViews\<close>, and for each view
  the image index from \<open>xrAcquireSwapchainImage\<close> and whether \<open>xrWaitSwapchainImage\<close>
  succeeds. Each of the per-view calls is made at most once in a tick.
\<close>

record frame_env =
  waitFrame :: "XrFrameState option"
  beginFrame_ok :: bool
  locateViews :: "XrView list option"
  acquireImage :: "nat \<Rightarrow> nat option"
  waitImage_ok :: "nat \<Rightarrow> bool"

text \<open>One pass of the main loop: whether \<open>SDL_PollEvent\<close> delivers a quit event, the
  events that \<open>xrPollEvent\<close> delivers before it reports an empty queue, each with the
  answers given while it is handled, and the answers for \<open>RenderFrame\<close>.\<close>

record tick =
  sdlQuit :: bool
  xrEvents :: "(XrEvent \<times> session_env) list"
  frame :: frame_env

subsection \<open>\<open>CreateSwapchains\<close> (lines 415-503)\<close>

text \<open>The loop over the views, lines 443-488. It returns the two arrays, the calls, and
  whether it ran to its end (\<open>False\<close>: the \<open>return 1\<close> at line 473).\<close>

fun create_loop ::
  "session_env \<Rightarrow> (nat \<times> nat) list \<Rightarrow> nat list \<Rightarrow> VRSwapchain list \<Rightarrow> XrView list
     \<Rightarrow> VRSwapchain list \<times> XrView list \<times> xr_call list \<times> bool" where
  "create_loop env viewConfigs [] pool views = (pool, views, [], True)"
| "create_loop env viewConfigs (i # rest) pool views =
     (let v = views ! i;
          views1 = views[i := v\<lparr>pose := (pose v)\<lparr>orientation := (orientation (pose v))\<lparr>quat_w := 1\<rparr>\<rparr>\<rparr>]
      in case createSwapchain env i of
           None \<Rightarrow> (pool, views1, [SDL_CreateGPUXRSwapchain i None], False)
         | Some (fmt, sc, imgs) \<Rightarrow>
             (let cnt = (case enumerateImages env i of None \<Rightarrow> 3 | Some n \<Rightarrow> n);
                  entry = (pool ! i)\<lparr>format := fmt, swapchain := sc, images := imgs,
                     imageCount := cnt,
                     size := \<lparr>width = sint (word_of_nat (fst (viewConfigs ! i)) :: 32 word),
                              height = sint (word_of_nat (snd (viewConfigs ! i)) :: 32 word)\<rparr>\<rparr>;
                  (pool', views', calls, ok) =
                     create_loop env viewConfigs rest (pool[i := entry]) views1
              in (pool', views',
                  SDL_CreateGPUXRSwapchain i (Some sc)
                    # XrEnumerateSwapchainImages i (enumerateImages env i \<noteq> None) # calls,
                  ok)))"

text \<open>
  \<open>CreateSwapchains\<close> returns the state, the calls and its \<open>int\<close> result. The second
  enumeration is given room for \<open>viewCount\<close> entries and fills at most that many.
  \<open>SDL_calloc\<close> is taken to succeed; an allocation of zero entries counts as a pointer
  that is not \<open>NULL\<close> (the frame routine tests \<open>viewCount > 0\<close> first).
\<close>

definition CreateSwapchains :: "xr_state \<Rightarrow> session_env \<Rightarrow> xr_state \<times> xr_call list \<times> int" where
  "CreateSwapchains s env =
     (case enumerateCount env of
        None \<Rightarrow> (s, [XrEnumerateViewConfigurationViews False], 1)
      | Some n \<Rightarrow>
         (let s1 = s\<lparr>viewCount := n\<rparr> in
          case enumerateViews env of
            None \<Rightarrow> (s1, [XrEnumerateViewConfigurationViews True,
                          XrEnumerateViewConfigurationViews False], 1)
          | Some answered \<Rightarrow>
             (let viewConfigs = take (viewCount s1) answered;
                  s2 = s1\<lparr>viewCount := length viewConfigs\<rparr>;
                  (pool, views, calls, ok) =
                     create_loop env viewConfigs [0..<viewCount s2]
                       (replicate (viewCount s2) zero_VRSwapchain)
                       (replicate (viewCount s2) zero_XrView);
                  s3 = s2\<lparr>vrSwapchains := Some pool, xrViews := views\<rparr>;
                  calls3 = [XrEnumerateViewConfigurationViews True,
                            XrEnumerateViewConfigurationViews True] @ calls
              in if \<not> ok then (s3, calls3, 1)
                 else if viewCount s3 > 0 \<and> \<not> pipeline s3 then
                   (if \<not> createPipeline_ok env then (s3, calls3 @ [CreatePipeline False], 1)
                    else if \<not> createCubeBuffers_ok env
                      then (s3\<lparr>pipeline := True\<rparr>,
                            calls3 @ [CreatePipeline True, CreateCubeBuffers False], 1)
                      else (s3\<lparr>pipeline := True\<rparr>,
                            calls3 @ [CreatePipeline True, CreateCubeBuffers True], 0))
                 else (s3, calls3, 0))))"

subsection \<open>\<open>HandleXREvents\<close> (lines 505-557)\<close>

text \<open>The body of the \<open>while\<close> loop for one polled event.\<close>

fun handle_event :: "xr_state \<Rightarrow> XrEvent \<times> session_env \<Rightarrow> xr_state \<times> xr_call list" where
  "handle_event s (XR_TYPE_EVENT_DATA_SESSION_STATE_CHANGED XR_SESSION_STATE_READY, env) =
     (if beginSession_ok env then
        (let s1 = s\<lparr>xrSessionRunning := True\<rparr>;
             (s2, calls, rc) = CreateSwapchains s1 env
         in if rc \<noteq> 0 then (s2\<lparr>xrShouldQuit := True\<rparr>, XrBeginSession True # calls)
            else (s2, XrBeginSession True # calls))
      else (s, [XrBeginSession False]))"
| "handle_event s (XR_TYPE_EVENT_DATA_SESSION_STATE_CHANGED XR_SESSION_STATE_STOPPING, env) =
     (s\<lparr>xrSessionRunning := False\<rparr>, [XrEndSession])"
| "handle_event s (XR_TYPE_EVENT_DATA_SESSION_STATE_CHANGED XR_SESSION_STATE_EXITING, env) =
     (s\<lparr>xrShouldQuit := True\<rparr>, [])"
| "handle_event s (XR_TYPE_EVENT_DATA_SESSION_STATE_CHANGED XR_SESSION_STATE_LOSS_PENDING, env) =
     (s\<lparr>xrShouldQuit := True\<rparr>, [])"
| "handle_event s (XR_TYPE_EVENT_DATA_SESSION_STATE_CHANGED st, env) = (s, [])"
| "handle_event s (XR_TYPE_EVENT_DATA_INSTANCE_LOSS_PENDING, env) =
     (s\<lparr>xrShouldQuit := True\<rparr>, [])"
| "handle_event s (XR_TYPE_EVENT_DATA_OTHER, env) = (s, [])"

text \<open>The loop runs while \<open>xrPollEvent\<close> returns \<open>XR_SUCCESS\<close>: once for each event of the
  queue.\<close>

fun HandleXREvents :: "xr_state \<Rightarrow> (XrEvent \<times> session_env) list \<Rightarrow> xr_state \<times> xr_call list" where
  "HandleXREvents s [] = (s, [])"
| "HandleXREvents s (e # es) =
     (let (s1, calls1) = handle_event s e;
          (s2, calls2) = HandleXREvents s1 es
      in (s2, calls1 @ calls2))"

subsection \<open>\<open>RenderFrame\<close> (lines 559-708)\<close>

text \<open>The entry that lines 679-686 write into \<open>projViews[i]\<close>.\<close>

definition projection_view :: "VRSwapchain \<Rightarrow> XrView \<Rightarrow> XrCompositionLayerProjectionView" where
  "projection_view sc v =
     \<lparr>view_type = XR_TYPE_COMPOSITION_LAYER_PROJECTION_VIEW,
      view_pose = pose v, view_fov = fov v,
      subImage_swapchain = swapchain sc,
      subImage_imageRect = \<lparr>offset_x = 0, offset_y = 0, extent = size sc\<rparr>,
      subImage_imageArrayIndex = 0\<rparr>"

text \<open>
  The loop over the views, lines 600-687. \<open>SDL_RenderPass i imageIndex\<close> stands for
  lines 618-672: the render pass into image \<open>imageIndex\<close> of the swapchain of view \<open>i\<close>,
  with the draw calls of the cubes. The third component of the result is \<open>False\<close> when
  the loop reads \<open>vrSwapchains[i]\<close> or \<open>xrViews[i]\<close> out of range.
\<close>

fun view_loop ::
  "frame_env \<Rightarrow> VRSwapchain list \<Rightarrow> XrView list \<Rightarrow> nat list
     \<Rightarrow> XrCompositionLayerProjectionView list
     \<Rightarrow> XrCompositionLayerProjectionView list \<times> xr_call list \<times> bool" where
  "view_loop env pool views [] projViews = (projViews, [], True)"
| "view_loop env pool views (i # rest) projViews =
     (if \<not> i < length pool then (projViews, [MemoryFault], False)
      else
        (let sc = pool ! i in
         case acquireImage env i of
           None \<Rightarrow>
             (let (projViews', calls, ok) = view_loop env pool views rest projViews
              in (projViews', XrAcquireSwapchainImage i (swapchain sc) False # calls, ok))
         | Some imageIndex \<Rightarrow>
             if \<not> waitImage_ok env i then
               (let (projViews', calls, ok) = view_loop env pool views rest projViews
                in (projViews',
                    XrAcquireSwapchainImage i (swapchain sc) True
                      # XrWaitSwapchainImage i (swapchain sc) False
                      # XrReleaseSwapchainImage i (swapchain sc) # calls, ok))
             else if \<not> i < length views then
               (projViews,
                [XrAcquireSwapchainImage i (swapchain sc) True,
                 XrWaitSwapchainImage i (swapchain sc) True, MemoryFault], False)
             else
               (let (projViews', calls, ok) =
                      view_loop env pool views rest
                        (projViews[i := projection_view sc (views ! i)])
                in (projViews',
                    XrAcquireSwapchainImage i (swapchain sc) True
                      # XrWaitSwapchainImage i (swapchain sc) True
                      # SDL_RenderPass i imageIndex
                      # XrReleaseSwapchainImage i (swapchain sc) # calls, ok))))"

text \<open>Lines 699-703.\<close>

definition end_info ::
  "XrFrameState \<Rightarrow> nat \<Rightarrow> XrCompositionLayerProjection option \<Rightarrow> XrFrameEndInfo" where
  "end_info frameState n l =
     \<lparr>displayTime = predictedDisplayTime frameState,
      environmentBlendMode = XR_ENVIRONMENT_BLEND_MODE_OPAQUE,
      layerCount = n, layers = l\<rparr>"

text \<open>
  \<open>RenderFrame\<close> returns the state, the calls, and \<open>False\<close> when the run ended in a
  memory fault. \<open>xrLocateViews\<close> is given room for \<open>viewCount\<close> views in \<open>xrViews\<close> and
  fills at most that many.
\<close>

definition RenderFrame :: "xr_state \<Rightarrow> frame_env \<Rightarrow> xr_state \<times> xr_call list \<times> bool" where
  "RenderFrame s env =
     (if \<not> xrSessionRunning s then (s, [], True)
      else case waitFrame env of
        None \<Rightarrow> (s, [XrWaitFrame False], True)
      | Some frameState \<Rightarrow>
          if \<not> beginFrame_ok env then (s, [XrWaitFrame True, XrBeginFrame False], True)
          else
            (case (if shouldRender frameState \<and> viewCount s > 0 then vrSwapchains s else None) of
               None \<Rightarrow>
                 (s, [XrWaitFrame True, XrBeginFrame True,
                      XrEndFrame (end_info frameState 0 None)], True)
             | Some pool \<Rightarrow>
                 (let s1 = s\<lparr>animTime := float32_add (animTime s) clock_increment\<rparr> in
                  case locateViews env of
                    None \<Rightarrow>
                      (s1, [XrWaitFrame True, XrBeginFrame True, XrLocateViews False,
                            XrEndFrame (end_info frameState 0 None)], True)
                  | Some located \<Rightarrow>
                      if length (xrViews s1) < viewCount s1 then
                        (s1, [XrWaitFrame True, XrBeginFrame True, MemoryFault], False)
                      else
                        (let written = take (viewCount s1) located;
                             s2 = s1\<lparr>xrViews := written @ drop (length written) (xrViews s1)\<rparr>;
                             (projViews, calls, ok) =
                               view_loop env pool (xrViews s2) [0..<viewCount s2]
                                 (replicate (viewCount s2) zero_ProjectionView);
                             layer = \<lparr>layer_space = xrLocalSpace s2,
                                      layer_viewCount = viewCount s2,
                                      layer_views = projViews\<rparr>
                         in if \<not> ok then
                              (s2, [XrWaitFrame True, XrBeginFrame True, XrLocateViews True]
                                     @ calls, False)
                            else
                              (s2, [XrWaitFrame True, XrBeginFrame True, XrLocateViews True]
                                     @ calls @ [XrEndFrame (end_info frameState 1 (Some layer))],
                               True)))))"

subsection \<open>\<open>Cleanup\<close> (lines 728-740) and the loop of \<open>main\<close> (lines 806-818)\<close>

fun destroy_loop :: "VRSwapchain list \<Rightarrow> nat list \<Rightarrow> xr_call list" where
  "destroy_loop pool [] = []"
| "destroy_loop pool (i # rest) =
     (if \<not> i < length pool then [MemoryFault]
      else (if swapchain (pool ! i) \<noteq> 0
            then [SDL_DestroyGPUXRSwapchain (swapchain (pool ! i))] else [])
           @ destroy_loop pool rest)"

definition Cleanup :: "xr_state \<Rightarrow> xr_call list" where
  "Cleanup s =
     (let calls = (case vrSwapchains s of None \<Rightarrow> []
                   | Some pool \<Rightarrow> destroy_loop pool [0..<viewCount s])
      in if MemoryFault \<in> set calls then calls
         else calls
              @ (if xrLocalSpace s \<noteq> 0 then [XrDestroySpace (xrLocalSpace s)] else [])
              @ (if xrSession s \<noteq> 0 then [XrDestroySession (xrSession s)] else []))"

text \<open>The loop \<open>while (!xrShouldQuit)\<close> of \<open>main\<close>, run on a list of ticks.\<close>

fun main_loop :: "xr_state \<Rightarrow> tick list \<Rightarrow> xr_state \<times> xr_call list" where
  "main_loop s [] = (s, [])"
| "main_loop s (t # ts) =
     (if xrShouldQuit s then (s, [])
      else
        (let s0 = (if sdlQuit t then s\<lparr>xrShouldQuit := True\<rparr> else s);
             (s1, calls1) = HandleXREvents s0 (xrEvents t);
             (s2, calls2, ok) = RenderFrame s1 (frame t)
         in if \<not> ok then (s2, calls1 @ calls2)
            else (let (s3, calls3) = main_loop s2 ts in (s3, calls1 @ calls2 @ calls3))))"



subsection \<open>Observations on the list of calls\<close>

text \<open>The state is well-formed for the frame routine when the arrays \<open>vrSwapchains\<close> and
  \<open>xrViews\<close> have at least \<open>viewCount\<close> entries: then no index is out of range.\<close>

definition arrays_fit :: "xr_state \<Rightarrow> bool" where
  "arrays_fit s =
     (viewCount s \<le> length (xrViews s)
      \<and> (case vrSwapchains s of None \<Rightarrow> True | Some pool \<Rightarrow> viewCount s \<le> length pool))"

text \<open>The calls on the swapchain of view \<open>i\<close>.\<close>

fun about_view :: "nat \<Rightarrow> xr_call \<Rightarrow> bool" where
  "about_view i (XrAcquireSwapchainImage j h ok) = (j = i)"
| "about_view i (XrWaitSwapchainImage j h ok) = (j = i)"
| "about_view i (SDL_RenderPass j n) = (j = i)"
| "about_view i (XrReleaseSwapchainImage j h) = (j = i)"
| "about_view i c = False"

text \<open>
  \<open>held_then_released held calls\<close>: with the image of view \<open>held\<close> acquired and not yet
  released (none when \<open>None\<close>), the calls acquire an image only when none is held,
  release only the image that is held, and leave none held at their end.
\<close>

fun held_then_released :: "nat option \<Rightarrow> xr_call list \<Rightarrow> bool" where
  "held_then_released held [] = (held = None)"
| "held_then_released held (XrAcquireSwapchainImage i h ok # calls) =
     (held = None \<and> held_then_released (if ok then Some i else None) calls)"
| "held_then_released held (XrReleaseSwapchainImage i h # calls) =
     (held = Some i \<and> held_then_released None calls)"
| "held_then_released held (c # calls) = held_then_released held calls"

fun is_end_frame :: "xr_call \<Rightarrow> bool" where
  "is_end_frame (XrEndFrame info) = True"
| "is_end_frame c = False"

fun is_begin_frame :: "xr_call \<Rightarrow> bool" where
  "is_begin_frame (XrBeginFrame ok) = True"
| "is_begin_frame c = False"


text \<open>The calls of one pass of the loop over the views, for view \<open>i\<close> with swapchain
  \<open>h\<close>, read off the three exits of the loop body: acquire failed; wait failed; rendered.\<close>

definition view_block :: "frame_env \<Rightarrow> VRSwapchain list \<Rightarrow> nat \<Rightarrow> xr_call list" where
  "view_block env pool i =
     (let h = swapchain (pool ! i) in
      case acquireImage env i of
        None \<Rightarrow> [XrAcquireSwapchainImage i h False]
      | Some n \<Rightarrow>
          if waitImage_ok env i
          then [XrAcquireSwapchainImage i h True, XrWaitSwapchainImage i h True,
                SDL_RenderPass i n, XrReleaseSwapchainImage i h]
          else [XrAcquireSwapchainImage i h True, XrWaitSwapchainImage i h False,
                XrReleaseSwapchainImage i h])"

text \<open>View \<open>i\<close> completed acquire and wait.\<close>

definition view_completed :: "frame_env \<Rightarrow> nat \<Rightarrow> bool" where
  "view_completed env i = (acquireImage env i \<noteq> None \<and> waitImage_ok env i)"


text \<open>The state after line 590 of a tick that renders: the clock advanced and the located
  views stored.\<close>

definition located_state :: "xr_state \<Rightarrow> XrView list \<Rightarrow> xr_state" where
  "located_state s located =
     s\<lparr>animTime := float32_add (animTime s) clock_increment,
       xrViews := take (viewCount s) located
                  @ drop (length (take (viewCount s) located)) (xrViews s)\<rparr>"


text \<open>The tick gets to the loop over the views (line 600): the session runs, wait-frame and
  begin-frame succeed, the frame is to be rendered, views and swapchains exist, and
  \<open>xrLocateViews\<close> succeeds.\<close>

definition reaches_view_loop :: "xr_state \<Rightarrow> frame_env \<Rightarrow> bool" where
  "reaches_view_loop s env =
     (xrSessionRunning s
      \<and> (case waitFrame env of None \<Rightarrow> False | Some fs \<Rightarrow> shouldRender fs)
      \<and> beginFrame_ok env \<and> 0 < viewCount s \<and> vrSwapchains s \<noteq> None
      \<and> locateViews env \<noteq> None)"

text \<open>The tick gets to line 580: as above, whatever \<open>xrLocateViews\<close> will answer.\<close>

definition advances_clock :: "xr_state \<Rightarrow> frame_env \<Rightarrow> bool" where
  "advances_clock s env =
     (xrSessionRunning s
      \<and> (case waitFrame env of None \<Rightarrow> False | Some fs \<Rightarrow> shouldRender fs)
      \<and> beginFrame_ok env \<and> 0 < viewCount s \<and> vrSwapchains s \<noteq> None)"

subsection \<open>A concrete state and concrete answers\<close>

text \<open>A running session with two views, each with a swapchain, and a tick in which every
  call succeeds except \<open>xrWaitSwapchainImage\<close> for view 0.\<close>

definition example_pool :: "VRSwapchain list" where
  "example_pool =
     [\<lparr>swapchain = 11, images = 21, size = \<lparr>width = 1000, height = 1000\<rparr>,
       format = 1, imageCount = 3\<rparr>,
      \<lparr>swapchain = 12, images = 22, size = \<lparr>width = 1000, height = 1000\<rparr>,
       format = 1, imageCount = 3\<rparr>]"

definition example_state :: xr_state where
  "example_state =
     \<lparr>xrSession = 5, xrLocalSpace = 6, xrSessionRunning = True, xrShouldQuit = False,
      vrSwapchains = Some example_pool, xrViews = [zero_XrView, zero_XrView],
      viewCount = 2, pipeline = True, animTime = Finite 0\<rparr>"

definition example_frame :: frame_env where
  "example_frame =
     \<lparr>waitFrame = Some \<lparr>predictedDisplayTime = 1000, shouldRender = True\<rparr>,
      beginFrame_ok = True,
      locateViews = Some [zero_XrView, zero_XrView],
      acquireImage = (\<lambda>i. Some 0),
      waitImage_ok = (\<lambda>i. i \<noteq> 0)\<rparr>"

text \<open>A tick without events in which \<open>xrWaitFrame\<close> fails, and one in which it succeeds.\<close>

definition failing_tick :: tick where
  "failing_tick = \<lparr>sdlQuit = False, xrEvents = [], frame = example_frame\<lparr>waitFrame := None\<rparr>\<rparr>"

definition good_tick :: tick where
  "good_tick = \<lparr>sdlQuit = False, xrEvents = [], frame = example_frame\<rparr>"

text \<open>The same state with the clock at \<open>2 ^ 18\<close>.\<close>

definition saturated_state :: xr_state where
  "saturated_state = example_state\<lparr>animTime := Finite 262144\<rparr>"

subsection \<open>The order of the events, and two monitors on the list of calls\<close>

text \<open>
  The session life cycle of OpenXR, which the compositor follows when it announces
  session states: idle, ready, synchronized, visible, focused and back, stopping, idle
  again, then ready again or exiting; loss pending from any state.
  \<open>lifecycle_step a b\<close>: the state \<open>b\<close> may be announced after the state \<open>a\<close>.
\<close>

definition lifecycle_step :: "XrSessionState \<Rightarrow> XrSessionState \<Rightarrow> bool" where
  "lifecycle_step a b =
     (b = XR_SESSION_STATE_LOSS_PENDING
      \<or> (a, b) \<in> set
          [(XR_SESSION_STATE_UNKNOWN, XR_SESSION_STATE_IDLE),
           (XR_SESSION_STATE_IDLE, XR_SESSION_STATE_READY),
           (XR_SESSION_STATE_IDLE, XR_SESSION_STATE_EXITING),
           (XR_SESSION_STATE_READY, XR_SESSION_STATE_SYNCHRONIZED),
           (XR_SESSION_STATE_SYNCHRONIZED, XR_SESSION_STATE_VISIBLE),
           (XR_SESSION_STATE_SYNCHRONIZED, XR_SESSION_STATE_STOPPING),
           (XR_SESSION_STATE_VISIBLE, XR_SESSION_STATE_FOCUSED),
           (XR_SESSION_STATE_VISIBLE, XR_SESSION_STATE_SYNCHRONIZED),
           (XR_SESSION_STATE_FOCUSED, XR_SESSION_STATE_VISIBLE),
           (XR_SESSION_STATE_STOPPING, XR_SESSION_STATE_IDLE)])"

text \<open>A sequence of events is valid from the session state \<open>st\<close> when its session-state
  events follow the life cycle; events of other types may come at any place.\<close>

fun valid_events :: "XrSessionState \<Rightarrow> XrEvent list \<Rightarrow> bool" where
  "valid_events st [] = True"
| "valid_events st (XR_TYPE_EVENT_DATA_SESSION_STATE_CHANGED n # es) =
     (lifecycle_step st n \<and> valid_events n es)"
| "valid_events st (e # es) = valid_events st es"

text \<open>The events that a list of ticks delivers, in order.\<close>

definition events_of :: "tick list \<Rightarrow> XrEvent list" where
  "events_of ticks = concat (map (\<lambda>t. map fst (xrEvents t)) ticks)"

text \<open>\<open>begin_end_alternate begun calls\<close>: no \<open>xrBeginSession\<close> is called while an earlier one
  has not been followed by \<open>xrEndSession\<close>; \<open>begun\<close> says whether one is open at the start.\<close>

fun begin_end_alternate :: "bool \<Rightarrow> xr_call list \<Rightarrow> bool" where
  "begin_end_alternate begun [] = True"
| "begin_end_alternate begun (XrBeginSession ok # calls) =
     (\<not> begun \<and> begin_end_alternate True calls)"
| "begin_end_alternate begun (XrEndSession # calls) = begin_end_alternate False calls"
| "begin_end_alternate begun (c # calls) = begin_end_alternate begun calls"

text \<open>\<open>wait_only_while_running running calls\<close>: every \<open>xrWaitFrame\<close> is called while the
  session runs, that is after an \<open>xrBeginSession\<close> that succeeded and before the next
  \<open>xrEndSession\<close>; \<open>running\<close> says whether the session runs at the start.\<close>

fun wait_only_while_running :: "bool \<Rightarrow> xr_call list \<Rightarrow> bool" where
  "wait_only_while_running running [] = True"
| "wait_only_while_running running (XrBeginSession ok # calls) =
     wait_only_while_running (running \<or> ok) calls"
| "wait_only_while_running running (XrEndSession # calls) =
     wait_only_while_running False calls"
| "wait_only_while_running running (XrWaitFrame ok # calls) =
     (running \<and> wait_only_while_running running calls)"
| "wait_only_while_running running (c # calls) = wait_only_while_running running calls"

fun is_session_call :: "xr_call \<Rightarrow> bool" where
  "is_session_call (XrBeginSession ok) = True"
| "is_session_call XrEndSession = True"
| "is_session_call c = False"

fun is_wait_frame :: "xr_call \<Rightarrow> bool" where
  "is_wait_frame (XrWaitFrame ok) = True"
| "is_wait_frame c = False"

text \<open>While a session is begun and not ended, the state announced last is none of
  unknown, idle and stopping.\<close>

definition begun_fits :: "bool \<Rightarrow> XrSessionState \<Rightarrow> bool" where
  "begun_fits begun st =
     (\<not> (begun \<and> st \<in> set [XR_SESSION_STATE_UNKNOWN, XR_SESSION_STATE_IDLE,
                               XR_SESSION_STATE_STOPPING]))"

text \<open>The swapchain handles that the calls create, and those that they destroy.\<close>

fun created_handles :: "xr_call list \<Rightarrow> handle list" where
  "created_handles [] = []"
| "created_handles (SDL_CreateGPUXRSwapchain i (Some h) # calls) = h # created_handles calls"
| "created_handles (c # calls) = created_handles calls"

fun destroyed_handles :: "xr_call list \<Rightarrow> handle list" where
  "destroyed_handles [] = []"
| "destroyed_handles (SDL_DestroyGPUXRSwapchain h # calls) = h # destroyed_handles calls"
| "destroyed_handles (c # calls) = destroyed_handles calls"

text \<open>Answers with which the session begins and a pool of two swapchains is created, with
  the handles \<open>first\<close> and \<open>first + 1\<close>; and answers with which the second swapchain
  fails.\<close>

definition example_session :: "handle \<Rightarrow> session_env" where
  "example_session first =
     \<lparr>beginSession_ok = True, enumerateCount = Some 2,
      enumerateViews = Some [(1000, 1000), (1000, 1000)],
      createSwapchain = (\<lambda>i. Some (1, first + i, 20 + first + i)),
      enumerateImages = (\<lambda>i. Some 3),
      createPipeline_ok = True, createCubeBuffers_ok = True\<rparr>"

definition failing_session :: session_env where
  "failing_session =
     (example_session 11)\<lparr>createSwapchain := (\<lambda>i. if i = 0 then Some (1, 11, 31) else None)\<rparr>"

text \<open>Two ticks: the session becomes ready; then it is synchronized, stops, is idle and
  becomes ready again. \<open>xrWaitFrame\<close> fails in both.\<close>

definition reready_ticks :: "tick list" where
  "reready_ticks =
     [\<lparr>sdlQuit = False,
       xrEvents = [(XR_TYPE_EVENT_DATA_SESSION_STATE_CHANGED XR_SESSION_STATE_IDLE, example_session 11),
                   (XR_TYPE_EVENT_DATA_SESSION_STATE_CHANGED XR_SESSION_STATE_READY, example_session 11)],
       frame = example_frame\<lparr>waitFrame := None\<rparr>\<rparr>,
      \<lparr>sdlQuit = False,
       xrEvents = [(XR_TYPE_EVENT_DATA_SESSION_STATE_CHANGED XR_SESSION_STATE_SYNCHRONIZED, example_session 13),
                   (XR_TYPE_EVENT_DATA_SESSION_STATE_CHANGED XR_SESSION_STATE_STOPPING, example_session 13),
                   (XR_TYPE_EVENT_DATA_SESSION_STATE_CHANGED XR_SESSION_STATE_IDLE, example_session 13),
                   (XR_TYPE_EVENT_DATA_SESSION_STATE_CHANGED XR_SESSION_STATE_READY, example_session 13)],
       frame = example_frame\<lparr>waitFrame := None\<rparr>\<rparr>]"

text \<open>One tick: the session becomes ready and the creation of the second swapchain fails;
  in the frame routine every call succeeds but the acquire on the second view.\<close>

definition failing_tick_ready :: tick where
  "failing_tick_ready =
     \<lparr>sdlQuit = False,
      xrEvents = [(XR_TYPE_EVENT_DATA_SESSION_STATE_CHANGED XR_SESSION_STATE_READY, failing_session)],
      frame = example_frame\<lparr>acquireImage := (\<lambda>i. if i = 0 then Some 0 else None),
                             waitImage_ok := (\<lambda>i. True)\<rparr>\<rparr>"

section \<open>Properties of the transform library\<close>

lemma upt4: "[0..<4] = [0, 1, 2, 3]"
  by (simp add: upt_rec)

lemma replicate16: "replicate 16 (0::real) = [0,0,0,0, 0,0,0,0, 0,0,0,0, 0,0,0,0]"
  by (simp add: numeral_eq_Suc)

lemma list_update_Cons_numeral:
  "(x # xs)[numeral v := y] = x # xs[pred_numeral v := y]"
  by (simp add: numeral_eq_Suc)

lemma Mat4_Multiply_rows:
  "Mat4_Multiply a b = foldl (Mat4_row a b) (replicate 16 0) [0, 1, 2, 3]"
  unfolding Mat4_Multiply_def Mat4_row_def upt4 ..

lemma Mat4_row_explicit:
  assumes "i * 4 + 3 < length r"
  shows "Mat4_row a b r i =
    r[i * 4 := r ! (i * 4) + a ! (i * 4) * b ! 0 + a ! (i * 4 + 1) * b ! 4
                + a ! (i * 4 + 2) * b ! 8 + a ! (i * 4 + 3) * b ! 12,
      i * 4 + 1 := r ! (i * 4 + 1) + a ! (i * 4) * b ! 1 + a ! (i * 4 + 1) * b ! 5
                + a ! (i * 4 + 2) * b ! 9 + a ! (i * 4 + 3) * b ! 13,
      i * 4 + 2 := r ! (i * 4 + 2) + a ! (i * 4) * b ! 2 + a ! (i * 4 + 1) * b ! 6
                + a ! (i * 4 + 2) * b ! 10 + a ! (i * 4 + 3) * b ! 14,
      i * 4 + 3 := r ! (i * 4 + 3) + a ! (i * 4) * b ! 3 + a ! (i * 4 + 1) * b ! 7
                + a ! (i * 4 + 2) * b ! 11 + a ! (i * 4 + 3) * b ! 15]"
  using assms unfolding Mat4_row_def upt4 by simp

text \<open>The product, entry by entry: the standard matrix product of row-major matrices.\<close>

lemma Mat4_Multiply_explicit:
  "Mat4_Multiply a b =
   [a!0*b!0 + a!1*b!4 + a!2*b!8 + a!3*b!12, a!0*b!1 + a!1*b!5 + a!2*b!9 + a!3*b!13,
    a!0*b!2 + a!1*b!6 + a!2*b!10 + a!3*b!14, a!0*b!3 + a!1*b!7 + a!2*b!11 + a!3*b!15,
    a!4*b!0 + a!5*b!4 + a!6*b!8 + a!7*b!12, a!4*b!1 + a!5*b!5 + a!6*b!9 + a!7*b!13,
    a!4*b!2 + a!5*b!6 + a!6*b!10 + a!7*b!14, a!4*b!3 + a!5*b!7 + a!6*b!11 + a!7*b!15,
    a!8*b!0 + a!9*b!4 + a!10*b!8 + a!11*b!12, a!8*b!1 + a!9*b!5 + a!10*b!9 + a!11*b!13,
    a!8*b!2 + a!9*b!6 + a!10*b!10 + a!11*b!14, a!8*b!3 + a!9*b!7 + a!10*b!11 + a!11*b!15,
    a!12*b!0 + a!13*b!4 + a!14*b!8 + a!15*b!12, a!12*b!1 + a!13*b!5 + a!14*b!9 + a!15*b!13,
    a!12*b!2 + a!13*b!6 + a!14*b!10 + a!15*b!14, a!12*b!3 + a!13*b!7 + a!14*b!11 + a!15*b!15]"
  unfolding Mat4_Multiply_rows replicate16
  by (simp add: Mat4_row_explicit list_update_Cons_numeral) (simp add: numeral_2_eq_2)

text \<open>The last row of a product whose left factor has the last row \<open>(0, 0, 0, 1)\<close> is the
  last row of the right factor.\<close>

lemma Mat4_Multiply_last_row:
  assumes "a ! 12 = 0" "a ! 13 = 0" "a ! 14 = 0" "a ! 15 = 1"
  shows "Mat4_Multiply a b ! 12 = b ! 12 \<and> Mat4_Multiply a b ! 13 = b ! 13
       \<and> Mat4_Multiply a b ! 14 = b ! 14 \<and> Mat4_Multiply a b ! 15 = b ! 15"
  unfolding Mat4_Multiply_explicit using assms by simp

lemma affine_rotations:
  "Mat4_Multiply (Mat4_Multiply (Mat4_Scale s) (Mat4_RotationY p)) (Mat4_RotationX q) ! 12 = 0
 \<and> Mat4_Multiply (Mat4_Multiply (Mat4_Scale s) (Mat4_RotationY p)) (Mat4_RotationX q) ! 13 = 0
 \<and> Mat4_Multiply (Mat4_Multiply (Mat4_Scale s) (Mat4_RotationY p)) (Mat4_RotationX q) ! 14 = 0
 \<and> Mat4_Multiply (Mat4_Multiply (Mat4_Scale s) (Mat4_RotationY p)) (Mat4_RotationX q) ! 15 = 1"
proof -
  have sy: "Mat4_Multiply (Mat4_Scale s) (Mat4_RotationY p) ! 12 = 0
          \<and> Mat4_Multiply (Mat4_Scale s) (Mat4_RotationY p) ! 13 = 0
          \<and> Mat4_Multiply (Mat4_Scale s) (Mat4_RotationY p) ! 14 = 0
          \<and> Mat4_Multiply (Mat4_Scale s) (Mat4_RotationY p) ! 15 = 1"
    using Mat4_Multiply_last_row [of "Mat4_Scale s" "Mat4_RotationY p"]
    by (simp add: Mat4_Scale_def Mat4_RotationY_def Let_def)
  show ?thesis
    using Mat4_Multiply_last_row [of "Mat4_Multiply (Mat4_Scale s) (Mat4_RotationY p)"
        "Mat4_RotationX q"] sy
    by (simp add: Mat4_RotationX_def Let_def)
qed

text \<open>
  Claim C8. Whatever the animation clock \<open>t\<close> and the instance (speed, scale, position),
  the model matrix scale * rotateY(t * speed) * rotateX(0.7 * t * speed) * translate(pos)
  has the position as its translation components, the entries 12, 13 and 14 of the
  row-major array (row-vector convention); for the first cube of the scene, with speed 1,
  scale 1 and position (0, 0, -2), they are 0, 0 and -2.
\<close>

theorem model_translation_is_position:
  "model_matrix t speed scl pos ! 12 = vec_x pos
 \<and> model_matrix t speed scl pos ! 13 = vec_y pos
 \<and> model_matrix t speed scl pos ! 14 = vec_z pos
 \<and> cubeSpeeds ! 0 = 1 \<and> cubeScales ! 0 = 1
 \<and> cube_model t 0 ! 12 = 0 \<and> cube_model t 0 ! 13 = 0 \<and> cube_model t 0 ! 14 = -2"
proof -
  have gen: "model_matrix t' speed' scl' pos' ! 12 = vec_x pos'
      \<and> model_matrix t' speed' scl' pos' ! 13 = vec_y pos'
      \<and> model_matrix t' speed' scl' pos' ! 14 = vec_z pos'" for t' speed' scl' pos'
    unfolding model_matrix_def Let_def
    using Mat4_Multiply_last_row [OF affine_rotations [THEN conjunct1]
        affine_rotations [THEN conjunct2, THEN conjunct1]
        affine_rotations [THEN conjunct2, THEN conjunct2, THEN conjunct1]
        affine_rotations [THEN conjunct2, THEN conjunct2, THEN conjunct2],
        of scl' "t' * speed'" "t' * speed' * 0.7"
        "Mat4_Translation (vec_x pos') (vec_y pos') (vec_z pos')"]
    by (simp add: Mat4_Translation_def)
  have c0: "cubePositions ! 0 = \<lparr>vec_x = 0, vec_y = 0, vec_z = -2\<rparr>"
    by (simp add: cubePositions_def)
  show ?thesis
    using gen [of t speed scl pos] gen [of t "cubeSpeeds ! 0" "cubeScales ! 0" "cubePositions ! 0"]
    by (simp add: cube_model_def c0 cubeSpeeds_def cubeScales_def)
qed

text \<open>
  Claim C9, as stated, fails for the field of view whose four half-angles are zero: it is
  symmetric, every tangent is defined, and \<open>0 < near < far\<close>, but \<open>w = 0\<close> and \<open>h = 0\<close>:
  the skew entries are \<open>0 / 0\<close>, and no matrix of real numbers is produced.
\<close>

theorem projection_zero_fov_undefined:
  "angleLeft \<lparr>angleLeft = 0, angleRight = 0, angleUp = 0, angleDown = 0\<rparr>
     = - angleRight \<lparr>angleLeft = 0, angleRight = 0, angleUp = 0, angleDown = 0\<rparr>
 \<and> angleUp \<lparr>angleLeft = 0, angleRight = 0, angleUp = 0, angleDown = 0\<rparr>
     = - angleDown \<lparr>angleLeft = 0, angleRight = 0, angleUp = 0, angleDown = 0\<rparr>
 \<and> cos (0::real) \<noteq> 0 \<and> (0::real) < 0.05 \<and> (0.05::real) < 100
 \<and> Mat4_Projection \<lparr>angleLeft = 0, angleRight = 0, angleUp = 0, angleDown = 0\<rparr> 0.05 100
     = None"
  by (simp add: Mat4_Projection_def)

text \<open>
  Claim C9, amended. For a symmetric field of view (\<open>angleLeft = - angleRight\<close>,
  \<open>angleUp = - angleDown\<close>) whose half-angles \<open>angleRight\<close> and \<open>angleUp\<close> are not zero and
  lie strictly between \<open>- pi / 2\<close> and \<open>pi / 2\<close>, and for \<open>0 < near < far\<close>, the projection
  matrix is produced, its skew entries (indices 8 and 9) are zero, and it is the
  standard symmetric perspective matrix.
\<close>

theorem projection_symmetric_no_skew:
  assumes "angleLeft fv = - angleRight fv" and "angleUp fv = - angleDown fv"
    and "\<bar>angleRight fv\<bar> < pi / 2" and "angleRight fv \<noteq> 0"
    and "\<bar>angleUp fv\<bar> < pi / 2" and "angleUp fv \<noteq> 0"
    and "0 < nearZ" and "nearZ < farZ"
  shows "\<exists>M. Mat4_Projection fv nearZ farZ = Some M \<and> M ! 8 = 0 \<and> M ! 9 = 0
    \<and> M = [1 / tan (angleRight fv), 0, 0, 0,
           0, 1 / tan (angleUp fv), 0, 0,
           0, 0, - farZ / (farZ - nearZ), -1,
           0, 0, - (farZ * nearZ) / (farZ - nearZ), 0]"
proof -
  have tan_nz: "tan a \<noteq> 0 \<and> cos a \<noteq> 0" if "\<bar>a\<bar> < pi / 2" "a \<noteq> 0" for a :: real
  proof -
    have c: "0 < cos a" using that by (intro cos_gt_zero_pi) auto
    have "tan a \<noteq> 0"
    proof (cases "0 < a")
      case True
      then have "0 < tan a" using that by (intro tan_gt_zero) auto
      then show ?thesis by simp
    next
      case False
      then have "a < 0" using that by simp
      then have "tan a < 0" using that by (intro tan_less_zero) auto
      then show ?thesis by simp
    qed
    then show ?thesis using c by simp
  qed
  have r: "tan (angleRight fv) \<noteq> 0" "cos (angleRight fv) \<noteq> 0"
    using tan_nz [OF assms(3) assms(4)] by simp_all
  have u: "tan (angleUp fv) \<noteq> 0" "cos (angleUp fv) \<noteq> 0"
    using tan_nz [OF assms(5) assms(6)] by simp_all
  have d: "angleDown fv = - angleUp fv" using assms(2) by simp
  show ?thesis
    using r u assms(8)
    by (simp add: Mat4_Projection_def Let_def assms(1) d)
qed

theorem projection_symmetric_no_skew_witness:
  "\<exists>M. Mat4_Projection
         \<lparr>angleLeft = - (pi / 4), angleRight = pi / 4, angleUp = pi / 4, angleDown = - (pi / 4)\<rparr>
         1 100 = Some M \<and> M ! 8 = 0 \<and> M ! 9 = 0"
proof -
  have "\<exists>M. Mat4_Projection
         \<lparr>angleLeft = - (pi / 4), angleRight = pi / 4, angleUp = pi / 4, angleDown = - (pi / 4)\<rparr>
         1 100 = Some M \<and> M ! 8 = 0 \<and> M ! 9 = 0
       \<and> M = [1 / tan (pi / 4), 0, 0, 0, 0, 1 / tan (pi / 4), 0, 0,
              0, 0, - 100 / (100 - 1), -1, 0, 0, - (100 * 1) / (100 - 1), 0]"
    using projection_symmetric_no_skew [of
        "\<lparr>angleLeft = - (pi / 4), angleRight = pi / 4, angleUp = pi / 4, angleDown = - (pi / 4)\<rparr>"
        1 100]
    by simp
  then show ?thesis by blast
qed

section \<open>Properties of the frame routine\<close>

lemma view_loop_calls:
  "\<forall>i \<in> set idx. i < length pool \<and> i < length views \<Longrightarrow>
   view_loop env pool views idx pv = (pv', calls, ok) \<Longrightarrow>
   ok \<and> calls = concat (map (view_block env pool) idx)"
proof (induction idx arbitrary: pv pv' calls ok)
  case Nil
  then show ?case by simp
next
  case (Cons j rest)
  then show ?case
    by (auto simp: Let_def view_block_def split: if_splits option.splits prod.splits)
qed

lemma view_loop_entries:
  "\<forall>i \<in> set idx. i < length pool \<and> i < length views \<Longrightarrow>
   view_loop env pool views idx pv = (pv', calls, ok) \<Longrightarrow>
   length pv' = length pv \<and>
   (\<forall>i < length pv. pv' ! i =
      (if i \<in> set idx \<and> view_completed env i
       then projection_view (pool ! i) (views ! i) else pv ! i))"
proof (induction idx arbitrary: pv pv' calls ok)
  case Nil
  then show ?case by simp
next
  case (Cons j rest)
  have fit: "\<forall>i \<in> set rest. i < length pool \<and> i < length views"
    and j: "j < length pool" "j < length views"
    using Cons.prems(1) by simp_all
  show ?case
  proof (cases "view_completed env j")
    case True
    then obtain n where acq: "acquireImage env j = Some n" and w: "waitImage_ok env j"
      by (auto simp: view_completed_def)
    obtain c' where rest: "view_loop env pool views rest
         (pv[j := projection_view (pool ! j) (views ! j)]) = (pv', c', ok)"
      using Cons.prems(2) j acq w by (auto simp: Let_def split: prod.splits)
    have ih: "length pv' = length pv"
      "\<And>i. i < length pv \<Longrightarrow> pv' ! i =
          (if i \<in> set rest \<and> view_completed env i
           then projection_view (pool ! i) (views ! i)
           else pv[j := projection_view (pool ! j) (views ! j)] ! i)"
      using Cons.IH [OF fit rest] by simp_all
    have "pv' ! i = (if i \<in> set (j # rest) \<and> view_completed env i
           then projection_view (pool ! i) (views ! i) else pv ! i)"
      if "i < length pv" for i
    proof (cases "i = j")
      case True
      with ih(2) [OF that] \<open>view_completed env j\<close> that show ?thesis by simp
    next
      case False
      with ih(2) [OF that] show ?thesis by simp
    qed
    with ih(1) show ?thesis by blast
  next
    case False
    then obtain c' where rest: "view_loop env pool views rest pv = (pv', c', ok)"
      using Cons.prems(2) j
      by (auto simp: Let_def view_completed_def split: prod.splits option.splits if_splits)
    from Cons.IH [OF fit rest] False show ?thesis
      by auto
  qed
qed

lemma view_block_no_frame_calls:
  "c \<in> set (view_block env pool i) \<Longrightarrow> \<not> is_end_frame c \<and> \<not> is_begin_frame c"
  by (auto simp: view_block_def Let_def split: option.splits if_splits)

lemma filter_view_block:
  "filter (about_view i) (view_block env pool j) = (if j = i then view_block env pool j else [])"
  by (auto simp: view_block_def Let_def split: option.splits)

lemma filter_view_blocks:
  "distinct idx \<Longrightarrow>
   filter (about_view i) (concat (map (view_block env pool) idx)) =
     (if i \<in> set idx then view_block env pool i else [])"
  by (induction idx) (auto simp: filter_view_block)

lemma held_view_block:
  "held_then_released None (view_block env pool i @ calls) = held_then_released None calls"
  by (auto simp: view_block_def Let_def split: option.splits)

lemma held_view_blocks:
  "held_then_released None (concat (map (view_block env pool) idx) @ calls) =
   held_then_released None calls"
  by (induction idx) (simp_all add: held_view_block)

lemma RenderFrame_idle:
  "\<not> xrSessionRunning s \<Longrightarrow> RenderFrame s env = (s, [], True)"
  by (simp add: RenderFrame_def)

lemma RenderFrame_wait_failed:
  "xrSessionRunning s \<Longrightarrow> waitFrame env = None \<Longrightarrow>
   RenderFrame s env = (s, [XrWaitFrame False], True)"
  by (simp add: RenderFrame_def)

lemma RenderFrame_begin_failed:
  "xrSessionRunning s \<Longrightarrow> waitFrame env = Some fs \<Longrightarrow> \<not> beginFrame_ok env \<Longrightarrow>
   RenderFrame s env = (s, [XrWaitFrame True, XrBeginFrame False], True)"
  by (simp add: RenderFrame_def)

lemma RenderFrame_skip:
  "xrSessionRunning s \<Longrightarrow> waitFrame env = Some fs \<Longrightarrow> beginFrame_ok env \<Longrightarrow>
   \<not> shouldRender fs \<or> viewCount s = 0 \<or> vrSwapchains s = None \<Longrightarrow>
   RenderFrame s env =
     (s, [XrWaitFrame True, XrBeginFrame True, XrEndFrame (end_info fs 0 None)], True)"
  by (auto simp: RenderFrame_def)

lemma RenderFrame_locate_failed:
  "xrSessionRunning s \<Longrightarrow> waitFrame env = Some fs \<Longrightarrow> beginFrame_ok env \<Longrightarrow>
   shouldRender fs \<Longrightarrow> 0 < viewCount s \<Longrightarrow> vrSwapchains s = Some pool \<Longrightarrow>
   locateViews env = None \<Longrightarrow>
   RenderFrame s env =
     (s\<lparr>animTime := float32_add (animTime s) clock_increment\<rparr>,
      [XrWaitFrame True, XrBeginFrame True, XrLocateViews False,
       XrEndFrame (end_info fs 0 None)], True)"
  by (simp add: RenderFrame_def)

lemma RenderFrame_render:
  assumes "xrSessionRunning s" "waitFrame env = Some fs" "beginFrame_ok env"
    "shouldRender fs" "0 < viewCount s" "vrSwapchains s = Some pool"
    "locateViews env = Some located" "arrays_fit s"
  shows "\<exists>pvs. RenderFrame s env =
      (located_state s located,
       [XrWaitFrame True, XrBeginFrame True, XrLocateViews True]
         @ concat (map (view_block env pool) [0..<viewCount s])
         @ [XrEndFrame (end_info fs 1
              (Some \<lparr>layer_space = xrLocalSpace s, layer_viewCount = viewCount s,
                     layer_views = pvs\<rparr>))], True)
    \<and> length pvs = viewCount s
    \<and> (\<forall>i < viewCount s. pvs ! i =
          (if view_completed env i
           then projection_view (pool ! i) (xrViews (located_state s located) ! i)
           else zero_ProjectionView))"
proof -
  let ?views = "take (viewCount s) located @ drop (length (take (viewCount s) located)) (xrViews s)"
  have len: "viewCount s \<le> length (xrViews s)" "viewCount s \<le> length pool"
    using assms(8,6) by (simp_all add: arrays_fit_def)
  have lv: "length ?views = length (xrViews s)"
    using len(1) by simp
  have fit: "\<forall>i \<in> set [0..<viewCount s]. i < length pool \<and> i < length ?views"
    using len lv by auto
  obtain pvs calls ok where vl:
    "view_loop env pool ?views [0..<viewCount s] (replicate (viewCount s) zero_ProjectionView)
       = (pvs, calls, ok)"
    by (metis prod_cases3)
  have c: "ok" "calls = concat (map (view_block env pool) [0..<viewCount s])"
    using view_loop_calls [OF fit vl] by simp_all
  have e: "length pvs = viewCount s"
    "\<forall>i < viewCount s. pvs ! i =
       (if view_completed env i then projection_view (pool ! i) (?views ! i)
        else zero_ProjectionView)"
    using view_loop_entries [OF fit vl] by simp_all
  have "RenderFrame s env =
      (located_state s located,
       [XrWaitFrame True, XrBeginFrame True, XrLocateViews True]
         @ concat (map (view_block env pool) [0..<viewCount s])
         @ [XrEndFrame (end_info fs 1
              (Some \<lparr>layer_space = xrLocalSpace s, layer_viewCount = viewCount s,
                     layer_views = pvs\<rparr>))], True)"
    using assms(1-7) len(1) vl c
    by (simp add: RenderFrame_def located_state_def Let_def)
  with e show ?thesis
    by (auto simp: located_state_def)
qed

lemma main_loop_tick:
  "\<not> xrShouldQuit s \<Longrightarrow> \<not> sdlQuit t \<Longrightarrow> xrEvents t = [] \<Longrightarrow>
   RenderFrame s (frame t) = (s', calls, True) \<Longrightarrow>
   main_loop s (t # ts) = (fst (main_loop s' ts), calls @ snd (main_loop s' ts))"
  by (simp add: case_prod_unfold Let_def)

lemma failed_wait_ticks:
  assumes "xrSessionRunning s" "\<not> xrShouldQuit s"
    and "\<forall>t \<in> set ticks. \<not> sdlQuit t \<and> xrEvents t = [] \<and> waitFrame (frame t) = None"
  shows "main_loop s (ticks @ later) =
             (fst (main_loop s later),
              replicate (length ticks) (XrWaitFrame False) @ snd (main_loop s later))"
  using assms(3)
proof (induction ticks)
  case Nil
  then show ?case by simp
next
  case (Cons t ticks)
  have r: "RenderFrame s (frame t) = (s, [XrWaitFrame False], True)"
    using Cons.prems assms(1) by (simp add: RenderFrame_wait_failed)
  have step: "main_loop s (t # (ticks @ later)) =
     (fst (main_loop s (ticks @ later)), [XrWaitFrame False] @ snd (main_loop s (ticks @ later)))"
    using Cons.prems assms(2) r by (intro main_loop_tick) simp_all
  have p: "\<forall>t \<in> set ticks. \<not> sdlQuit t \<and> xrEvents t = [] \<and> waitFrame (frame t) = None"
    using Cons.prems by simp
  note ih = Cons.IH [OF p]
  show ?case
    by (simp only: append_Cons step ih fst_conv snd_conv length_Cons replicate_Suc append.simps)
qed

text \<open>
  Claim C1. In every tick, from a state whose arrays fit, the frame routine ends without a
  memory fault, and for every view index \<open>i\<close> the calls on the swapchain of view \<open>i\<close> are,
  in this order: none at all when the tick does not get to the loop over the views (or
  \<open>i\<close> is not a view); the failed acquire alone, with no wait and no release; or the
  successful acquire, the wait, the render pass when the wait succeeded, and exactly one
  release, which comes last. Moreover an image is acquired only when none is held and
  none is held when the tick ends, so the release comes before the loop moves to the
  next view.
\<close>

theorem acquire_release_paired:
  assumes "arrays_fit s" and "RenderFrame s env = (s', calls, ok)"
  shows "ok \<and> held_then_released None calls \<and>
    (\<exists>h. filter (about_view i) calls =
       (if reaches_view_loop s env \<and> i < viewCount s then
          (case acquireImage env i of
             None \<Rightarrow> [XrAcquireSwapchainImage i h False]
           | Some n \<Rightarrow>
               if waitImage_ok env i
               then [XrAcquireSwapchainImage i h True, XrWaitSwapchainImage i h True,
                     SDL_RenderPass i n, XrReleaseSwapchainImage i h]
               else [XrAcquireSwapchainImage i h True, XrWaitSwapchainImage i h False,
                     XrReleaseSwapchainImage i h])
        else []))"
proof (cases "reaches_view_loop s env")
  case True
  then obtain fs pool located where c: "xrSessionRunning s" "waitFrame env = Some fs"
      "beginFrame_ok env" "shouldRender fs" "0 < viewCount s" "vrSwapchains s = Some pool"
      "locateViews env = Some located"
    by (auto simp: reaches_view_loop_def split: option.splits)
  from RenderFrame_render [OF c assms(1)] assms(2)
  have ok: "ok" and calls: "\<exists>info. calls =
       [XrWaitFrame True, XrBeginFrame True, XrLocateViews True]
         @ concat (map (view_block env pool) [0..<viewCount s]) @ [XrEndFrame info]"
    by auto
  then obtain info where calls': "calls =
       [XrWaitFrame True, XrBeginFrame True, XrLocateViews True]
         @ concat (map (view_block env pool) [0..<viewCount s]) @ [XrEndFrame info]"
    by blast
  have h: "held_then_released None calls"
    unfolding calls' by (simp add: held_view_blocks)
  have f: "filter (about_view i) calls =
      (if i < viewCount s then view_block env pool i else [])"
    unfolding calls' by (simp add: filter_view_blocks)
  have "filter (about_view i) calls =
       (if reaches_view_loop s env \<and> i < viewCount s then
          (case acquireImage env i of
             None \<Rightarrow> [XrAcquireSwapchainImage i (swapchain (pool ! i)) False]
           | Some n \<Rightarrow>
               if waitImage_ok env i
               then [XrAcquireSwapchainImage i (swapchain (pool ! i)) True,
                     XrWaitSwapchainImage i (swapchain (pool ! i)) True,
                     SDL_RenderPass i n, XrReleaseSwapchainImage i (swapchain (pool ! i))]
               else [XrAcquireSwapchainImage i (swapchain (pool ! i)) True,
                     XrWaitSwapchainImage i (swapchain (pool ! i)) False,
                     XrReleaseSwapchainImage i (swapchain (pool ! i))])
        else [])"
    unfolding f using True by (simp add: view_block_def Let_def split: option.splits)
  with ok h show ?thesis by blast
next
  case False
  have "ok \<and> held_then_released None calls \<and> filter (about_view i) calls = []"
  proof (cases "xrSessionRunning s")
    case False
    with assms(2) show ?thesis by (auto simp: RenderFrame_idle)
  next
    case run: True
    show ?thesis
    proof (cases "waitFrame env")
      case None
      with assms(2) run show ?thesis by (auto simp: RenderFrame_wait_failed)
    next
      case (Some fs)
      show ?thesis
      proof (cases "beginFrame_ok env")
        case False
        with assms(2) run Some show ?thesis by (auto simp: RenderFrame_begin_failed)
      next
        case b: True
        show ?thesis
        proof (cases "\<not> shouldRender fs \<or> viewCount s = 0 \<or> vrSwapchains s = None")
          case True
          from RenderFrame_skip [OF run Some b True] assms(2) show ?thesis by auto
        next
          case r: False
          then obtain pool where p: "vrSwapchains s = Some pool" by auto
          from r have sr: "shouldRender fs" "0 < viewCount s" by auto
          have "locateViews env = None"
            using \<open>\<not> reaches_view_loop s env\<close> run Some b sr p
            by (simp add: reaches_view_loop_def)
          from RenderFrame_locate_failed [OF run Some b sr p this] assms(2)
          show ?thesis by auto
        qed
      qed
    qed
  qed
  with False show ?thesis by simp
qed

text \<open>
  Claim C3. In a tick of a running session: when wait-frame fails, the only call is the
  failed wait-frame and the state is unchanged; when wait-frame succeeds and begin-frame
  fails, the calls are these two and the state is unchanged: no end-frame in either
  case. Any number of ticks without events whose wait-frame fails make one failed
  wait-frame call each, no begin-frame and no end-frame, and leave the state as it was,
  so that the run goes on as if these ticks had not been; and a tick whose wait-frame and
  begin-frame succeed goes through the whole protocol, from wait-frame and begin-frame
  to the one end-frame at its end.
\<close>

theorem wait_or_begin_failure_aborts_tick:
  assumes "xrSessionRunning s"
  shows "(waitFrame env = None \<longrightarrow> RenderFrame s env = (s, [XrWaitFrame False], True))
    \<and> (waitFrame env \<noteq> None \<and> \<not> beginFrame_ok env \<longrightarrow>
         RenderFrame s env = (s, [XrWaitFrame True, XrBeginFrame False], True))
    \<and> (\<not> xrShouldQuit s
        \<and> (\<forall>t \<in> set ticks. \<not> sdlQuit t \<and> xrEvents t = [] \<and> waitFrame (frame t) = None) \<longrightarrow>
         main_loop s ticks = (s, replicate (length ticks) (XrWaitFrame False))
         \<and> main_loop s (ticks @ later) =
             (fst (main_loop s later),
              replicate (length ticks) (XrWaitFrame False) @ snd (main_loop s later)))
    \<and> (arrays_fit s \<and> waitFrame env \<noteq> None \<and> beginFrame_ok env \<longrightarrow>
         (\<exists>s' mid info. RenderFrame s env =
            (s', [XrWaitFrame True, XrBeginFrame True] @ mid @ [XrEndFrame info], True)
            \<and> (\<forall>c \<in> set mid. \<not> is_begin_frame c \<and> \<not> is_end_frame c)))"
proof (intro conjI impI)
  assume "waitFrame env = None"
  with assms show "RenderFrame s env = (s, [XrWaitFrame False], True)"
    by (simp add: RenderFrame_wait_failed)
next
  assume "waitFrame env \<noteq> None \<and> \<not> beginFrame_ok env"
  with assms show "RenderFrame s env = (s, [XrWaitFrame True, XrBeginFrame False], True)"
    by (auto simp: RenderFrame_begin_failed)
next
  assume a: "\<not> xrShouldQuit s
        \<and> (\<forall>t \<in> set ticks. \<not> sdlQuit t \<and> xrEvents t = [] \<and> waitFrame (frame t) = None)"
  then have q: "\<not> xrShouldQuit s"
    and p: "\<forall>t \<in> set ticks. \<not> sdlQuit t \<and> xrEvents t = [] \<and> waitFrame (frame t) = None"
    by blast+
  show "main_loop s (ticks @ later) =
             (fst (main_loop s later),
              replicate (length ticks) (XrWaitFrame False) @ snd (main_loop s later))"
    by (rule failed_wait_ticks [OF assms q p])
  have "main_loop s (ticks @ []) =
             (fst (main_loop s []),
              replicate (length ticks) (XrWaitFrame False) @ snd (main_loop s []))"
    by (rule failed_wait_ticks [OF assms q p])
  then show "main_loop s ticks = (s, replicate (length ticks) (XrWaitFrame False))"
    by (simp only: append_Nil2 main_loop.simps(1) fst_conv snd_conv)
next
  assume a: "arrays_fit s \<and> waitFrame env \<noteq> None \<and> beginFrame_ok env"
  then obtain fs where fs: "waitFrame env = Some fs" by auto
  show "\<exists>s' mid info. RenderFrame s env =
            (s', [XrWaitFrame True, XrBeginFrame True] @ mid @ [XrEndFrame info], True)
            \<and> (\<forall>c \<in> set mid. \<not> is_begin_frame c \<and> \<not> is_end_frame c)"
  proof (cases "\<not> shouldRender fs \<or> viewCount s = 0 \<or> vrSwapchains s = None")
    case True
    from RenderFrame_skip [OF assms fs _ True] a
    have "RenderFrame s env =
       (s, [XrWaitFrame True, XrBeginFrame True] @ [] @ [XrEndFrame (end_info fs 0 None)], True)"
      by simp
    then show ?thesis by (metis empty_iff list.set(1))
  next
    case r: False
    then obtain pool where p: "vrSwapchains s = Some pool" by auto
    from r have sr: "shouldRender fs" "0 < viewCount s" by auto
    from a have b: "beginFrame_ok env" and fit: "arrays_fit s" by simp_all
    show ?thesis
    proof (cases "locateViews env")
      case None
      from RenderFrame_locate_failed [OF assms fs b sr p None]
      have "RenderFrame s env =
         (s\<lparr>animTime := float32_add (animTime s) clock_increment\<rparr>,
          [XrWaitFrame True, XrBeginFrame True] @ [XrLocateViews False]
            @ [XrEndFrame (end_info fs 0 None)], True)
         \<and> (\<forall>c \<in> set [XrLocateViews False]. \<not> is_begin_frame c \<and> \<not> is_end_frame c)"
        by simp
      then show ?thesis by blast
    next
      case (Some located)
      from RenderFrame_render [OF assms fs b sr p Some fit]
      obtain pvs where "RenderFrame s env =
        (located_state s located,
         [XrWaitFrame True, XrBeginFrame True]
           @ (XrLocateViews True # concat (map (view_block env pool) [0..<viewCount s]))
           @ [XrEndFrame (end_info fs 1
                (Some \<lparr>layer_space = xrLocalSpace s, layer_viewCount = viewCount s,
                       layer_views = pvs\<rparr>))], True)"
        by auto
      moreover have "\<forall>c \<in> set (XrLocateViews True
           # concat (map (view_block env pool) [0..<viewCount s])).
             \<not> is_begin_frame c \<and> \<not> is_end_frame c"
        using view_block_no_frame_calls by auto
      ultimately show ?thesis by blast
    qed
  qed
qed

lemma example_fit: "arrays_fit example_state"
  by (simp add: arrays_fit_def example_state_def example_pool_def)

lemma example_reaches: "reaches_view_loop example_state example_frame"
  by (simp add: reaches_view_loop_def example_state_def example_frame_def)

theorem acquire_release_paired_witness:
  "arrays_fit example_state
   \<and> (\<exists>s' calls h. RenderFrame example_state example_frame = (s', calls, True)
        \<and> held_then_released None calls
        \<and> filter (about_view 0) calls =
            [XrAcquireSwapchainImage 0 h True, XrWaitSwapchainImage 0 h False,
             XrReleaseSwapchainImage 0 h])"
proof -
  obtain s' calls ok where r: "RenderFrame example_state example_frame = (s', calls, ok)"
    by (metis prod_cases3)
  have v: "0 < viewCount example_state" "acquireImage example_frame 0 = Some 0"
    "\<not> waitImage_ok example_frame 0"
    by (simp_all add: example_state_def example_frame_def)
  from acquire_release_paired [OF example_fit r, of 0] example_reaches v r example_fit
  show ?thesis by auto
qed

theorem wait_or_begin_failure_aborts_tick_witness:
  "xrSessionRunning example_state
   \<and> RenderFrame example_state (frame failing_tick) = (example_state, [XrWaitFrame False], True)
   \<and> main_loop example_state ([failing_tick, failing_tick, failing_tick] @ [good_tick]) =
       (fst (main_loop example_state [good_tick]),
        replicate 3 (XrWaitFrame False) @ snd (main_loop example_state [good_tick]))
   \<and> (\<exists>s' mid info. RenderFrame example_state (frame good_tick) =
         (s', [XrWaitFrame True, XrBeginFrame True] @ mid @ [XrEndFrame info], True))"
proof -
  have run: "xrSessionRunning example_state" "\<not> xrShouldQuit example_state"
    by (simp_all add: example_state_def)
  have f: "waitFrame (frame failing_tick) = None"
    "\<forall>t \<in> set [failing_tick, failing_tick, failing_tick].
        \<not> sdlQuit t \<and> xrEvents t = [] \<and> waitFrame (frame t) = None"
    by (simp_all add: failing_tick_def)
  have g: "waitFrame (frame good_tick) \<noteq> None" "beginFrame_ok (frame good_tick)"
    by (simp_all add: good_tick_def example_frame_def)
  have l: "length [failing_tick, failing_tick, failing_tick] = 3" by simp
  from wait_or_begin_failure_aborts_tick [OF run(1), of "frame failing_tick"
      "[failing_tick, failing_tick, failing_tick]" "[good_tick]"] f run(2)
  have a: "RenderFrame example_state (frame failing_tick) = (example_state, [XrWaitFrame False], True)"
    and b: "main_loop example_state ([failing_tick, failing_tick, failing_tick] @ [good_tick]) =
       (fst (main_loop example_state [good_tick]),
        replicate (length [failing_tick, failing_tick, failing_tick]) (XrWaitFrame False)
          @ snd (main_loop example_state [good_tick]))"
    by blast+
  from wait_or_begin_failure_aborts_tick [OF run(1), of "frame good_tick" "[]" "[]"]
    g example_fit
  have c: "\<exists>s' mid info. RenderFrame example_state (frame good_tick) =
         (s', [XrWaitFrame True, XrBeginFrame True] @ mid @ [XrEndFrame info], True)"
    by blast
  from a b c run(1) show ?thesis unfolding l by blast
qed

text \<open>
  Claim C4. In a tick of a running session in which wait-frame and begin-frame succeed,
  the calls end with one end-frame call, and there is no other: it carries the predicted
  display time of the frame state and the opaque blend mode. When the frame state says
  not to render, or there is no view, or no swapchain array, or \<open>xrLocateViews\<close> fails, it
  carries zero layers (whatever the arrays are); otherwise, from a state whose arrays
  fit, it is made after the loop over the views.
\<close>

theorem end_frame_follows_begin_frame:
  assumes "xrSessionRunning s" "waitFrame env = Some fs" "beginFrame_ok env"
  shows "(\<not> shouldRender fs \<or> viewCount s = 0 \<or> vrSwapchains s = None
            \<or> locateViews env = None \<longrightarrow>
          (\<exists>s' mid. RenderFrame s env =
             (s', [XrWaitFrame True, XrBeginFrame True] @ mid
                  @ [XrEndFrame \<lparr>displayTime = predictedDisplayTime fs,
                        environmentBlendMode = XR_ENVIRONMENT_BLEND_MODE_OPAQUE,
                        layerCount = 0, layers = None\<rparr>], True)
             \<and> (\<forall>c \<in> set mid. \<not> is_end_frame c)))
    \<and> (arrays_fit s \<longrightarrow>
          (\<exists>s' mid n l. RenderFrame s env =
             (s', [XrWaitFrame True, XrBeginFrame True] @ mid
                  @ [XrEndFrame \<lparr>displayTime = predictedDisplayTime fs,
                        environmentBlendMode = XR_ENVIRONMENT_BLEND_MODE_OPAQUE,
                        layerCount = n, layers = l\<rparr>], True)
             \<and> (\<forall>c \<in> set mid. \<not> is_end_frame c)))"
proof -
  have skip: "\<exists>s' mid. RenderFrame s env =
             (s', [XrWaitFrame True, XrBeginFrame True] @ mid
                  @ [XrEndFrame (end_info fs 0 None)], True)
             \<and> (\<forall>c \<in> set mid. \<not> is_end_frame c)"
    if c: "\<not> shouldRender fs \<or> viewCount s = 0 \<or> vrSwapchains s = None
            \<or> locateViews env = None"
  proof (cases "\<not> shouldRender fs \<or> viewCount s = 0 \<or> vrSwapchains s = None")
    case True
    from RenderFrame_skip [OF assms True]
    have "RenderFrame s env =
       (s, [XrWaitFrame True, XrBeginFrame True] @ [] @ [XrEndFrame (end_info fs 0 None)], True)
       \<and> (\<forall>c \<in> set []. \<not> is_end_frame c)"
      by simp
    then show ?thesis by blast
  next
    case False
    then obtain pool where p: "vrSwapchains s = Some pool" by auto
    from False have sr: "shouldRender fs" "0 < viewCount s" by auto
    from False c have "locateViews env = None" by auto
    from RenderFrame_locate_failed [OF assms sr p this]
    have "RenderFrame s env =
         (s\<lparr>animTime := float32_add (animTime s) clock_increment\<rparr>,
          [XrWaitFrame True, XrBeginFrame True] @ [XrLocateViews False]
            @ [XrEndFrame (end_info fs 0 None)], True)
         \<and> (\<forall>c \<in> set [XrLocateViews False]. \<not> is_end_frame c)"
      by simp
    then show ?thesis by blast
  qed
  have render: "\<exists>s' mid l. RenderFrame s env =
             (s', [XrWaitFrame True, XrBeginFrame True] @ mid
                  @ [XrEndFrame (end_info fs 1 l)], True)
             \<and> (\<forall>c \<in> set mid. \<not> is_end_frame c)"
    if fit: "arrays_fit s"
      and c: "\<not> (\<not> shouldRender fs \<or> viewCount s = 0 \<or> vrSwapchains s = None
            \<or> locateViews env = None)"
  proof -
    from c obtain pool located where p: "vrSwapchains s = Some pool"
      and l: "locateViews env = Some located" by auto
    from c have sr: "shouldRender fs" "0 < viewCount s" by auto
    from RenderFrame_render [OF assms sr p l fit]
    obtain pvs where "RenderFrame s env =
        (located_state s located,
         [XrWaitFrame True, XrBeginFrame True]
           @ (XrLocateViews True # concat (map (view_block env pool) [0..<viewCount s]))
           @ [XrEndFrame (end_info fs 1
                (Some \<lparr>layer_space = xrLocalSpace s, layer_viewCount = viewCount s,
                       layer_views = pvs\<rparr>))], True)"
      by auto
    moreover have "\<forall>c \<in> set (XrLocateViews True
           # concat (map (view_block env pool) [0..<viewCount s])). \<not> is_end_frame c"
      using view_block_no_frame_calls by auto
    ultimately show ?thesis by blast
  qed
  show ?thesis
  proof (intro conjI impI)
    assume "\<not> shouldRender fs \<or> viewCount s = 0 \<or> vrSwapchains s = None
            \<or> locateViews env = None"
    from skip [OF this] show "\<exists>s' mid. RenderFrame s env =
             (s', [XrWaitFrame True, XrBeginFrame True] @ mid
                  @ [XrEndFrame \<lparr>displayTime = predictedDisplayTime fs,
                        environmentBlendMode = XR_ENVIRONMENT_BLEND_MODE_OPAQUE,
                        layerCount = 0, layers = None\<rparr>], True)
             \<and> (\<forall>c \<in> set mid. \<not> is_end_frame c)"
      by (simp add: end_info_def)
  next
    assume fit: "arrays_fit s"
    show "\<exists>s' mid n l. RenderFrame s env =
             (s', [XrWaitFrame True, XrBeginFrame True] @ mid
                  @ [XrEndFrame \<lparr>displayTime = predictedDisplayTime fs,
                        environmentBlendMode = XR_ENVIRONMENT_BLEND_MODE_OPAQUE,
                        layerCount = n, layers = l\<rparr>], True)
             \<and> (\<forall>c \<in> set mid. \<not> is_end_frame c)"
    proof (cases "\<not> shouldRender fs \<or> viewCount s = 0 \<or> vrSwapchains s = None
            \<or> locateViews env = None")
      case True
      from skip [OF True] show ?thesis unfolding end_info_def by blast
    next
      case False
      from render [OF fit False] show ?thesis unfolding end_info_def by blast
    qed
  qed
qed

lemma float32_spacing_binade:
  "2 ^ (23 + k) \<le> m \<Longrightarrow> m < 2 ^ (24 + k) \<Longrightarrow> float32_spacing m = 2 ^ k"
proof (induction k arbitrary: m)
  case 0
  then show ?case by (subst float32_spacing.simps) simp
next
  case (Suc k)
  have "\<not> m < 2 ^ 24"
  proof -
    have "(2::nat) ^ 24 \<le> 2 ^ (23 + Suc k)" by (intro power_increasing) simp_all
    with Suc.prems(1) show ?thesis by simp
  qed
  moreover have "float32_spacing (m div 2) = 2 ^ k"
  proof (rule Suc.IH)
    define X :: nat where "X = 2 ^ (23 + k)"
    have e: "(2::nat) ^ (23 + Suc k) = 2 * X" "(2::nat) ^ (24 + Suc k) = 4 * X"
      "(2::nat) ^ (24 + k) = 2 * X"
      by (simp_all add: X_def power_add)
    from Suc.prems have b: "2 * X \<le> m" "m < 4 * X" unfolding e by simp_all
    from b show "2 ^ (23 + k) \<le> m div 2" unfolding X_def [symmetric] by arith
    from b show "m div 2 < 2 ^ (24 + k)" unfolding e by arith
  qed
  ultimately show ?case by (subst float32_spacing.simps) simp
qed

lemma float32_round_increment: "float32_round (11 / 1000) = 11811160 / 2 ^ 30"
proof -
  have sp: "float32_spacing (nat \<lfloor>\<bar>11 / 1000 :: real\<bar> * 2 ^ 149\<rfloor>) = 2 ^ 119"
    by (rule float32_spacing_binade) (simp_all add: floor_divide_real_eq_div)
  show ?thesis
    unfolding float32_round_def Let_def sp
    by (simp add: floor_divide_real_eq_div)
qed

lemma float32_add_saturated:
  "float32_add (Finite 262144) clock_increment = Finite 262144"
proof -
  have sp: "float32_spacing (nat \<lfloor>\<bar>262144 + 11811160 / 2 ^ 30 :: real\<bar> * 2 ^ 149\<rfloor>) = 2 ^ 144"
    by (rule float32_spacing_binade) (simp_all add: floor_divide_real_eq_div)
  have "float32_round (262144 + 11811160 / 2 ^ 30) = 262144"
    unfolding float32_round_def Let_def sp
    by (simp add: floor_divide_real_eq_div)
  then show ?thesis
    by (simp add: clock_increment_def float32_round_increment)
qed

lemma float32_add_first:
  "float32_add (Finite 0) clock_increment = clock_increment"
proof -
  have sp: "float32_spacing (nat \<lfloor>\<bar>0 + 11811160 / 2 ^ 30 :: real\<bar> * 2 ^ 149\<rfloor>) = 2 ^ 119"
    by (rule float32_spacing_binade) (simp_all add: floor_divide_real_eq_div)
  have "float32_round (0 + 11811160 / 2 ^ 30) = 11811160 / 2 ^ 30"
    unfolding float32_round_def Let_def sp
    by (simp add: floor_divide_real_eq_div)
  then show ?thesis
    by (simp add: clock_increment_def float32_round_increment)
qed

lemma RenderFrame_clock:
  "animTime (fst (RenderFrame s env)) =
     (if advances_clock s env then float32_add (animTime s) clock_increment else animTime s)"
  by (auto simp: RenderFrame_def advances_clock_def Let_def
      split: option.splits prod.splits if_splits)

text \<open>
  Claim C10, as stated, fails. In a running session with two views and their swapchains,
  in a tick in which wait-frame and begin-frame succeed and the frame is to be rendered,
  the clock at 262144 stays at 262144: the single-precision sum of 262144 and 0.011f is
  262144.
\<close>

theorem clock_not_advanced_at_262144:
  "advances_clock saturated_state example_frame
   \<and> animTime saturated_state = Finite 262144
   \<and> animTime (fst (RenderFrame saturated_state example_frame)) = Finite 262144"
proof -
  have a: "advances_clock saturated_state example_frame"
    by (simp add: advances_clock_def saturated_state_def example_state_def example_frame_def)
  have t: "animTime saturated_state = Finite 262144"
    by (simp add: saturated_state_def)
  from a t show ?thesis
    by (simp add: RenderFrame_clock float32_add_saturated)
qed

text \<open>
  Claim C10, amended. The frame routine runs the assignment \<open>animTime += 0.011f\<close> once when
  the session runs, wait-frame and begin-frame succeed, the frame state says to render,
  and views and swapchains exist, and not at all otherwise: the clock becomes the
  single-precision sum of its value and 0.011f in the first case and keeps its value in
  the second. The answer of \<open>xrLocateViews\<close> is no part of the condition, so the new value
  stays when that call fails. Handling the events of the tick does not change the clock.
  The constant 0.011f is \<open>11811160 / 2 ^ 30\<close>, and the first advance, from the clock 0,
  gives this number.
\<close>

theorem clock_advances_once:
  "animTime (fst (RenderFrame s env)) =
     (if advances_clock s env then float32_add (animTime s) clock_increment else animTime s)
   \<and> animTime (fst (HandleXREvents s evs)) = animTime s
   \<and> clock_increment = Finite (11811160 / 2 ^ 30)
   \<and> float32_add (Finite 0) clock_increment = Finite (11811160 / 2 ^ 30)"
proof (intro conjI)
  show "animTime (fst (RenderFrame s env)) =
     (if advances_clock s env then float32_add (animTime s) clock_increment else animTime s)"
    by (rule RenderFrame_clock)
next
  have cs: "animTime (fst (CreateSwapchains s1 e)) = animTime s1" for s1 e
    by (auto simp: CreateSwapchains_def Let_def split: option.splits prod.splits)
  have he: "animTime (fst (handle_event s1 ev)) = animTime s1" for s1 ev
  proof (cases ev)
    case (Pair e env1)
    show ?thesis
    proof (cases e)
      case (XR_TYPE_EVENT_DATA_SESSION_STATE_CHANGED st)
      with Pair cs [of "s1\<lparr>xrSessionRunning := True\<rparr>" env1] show ?thesis
        by (cases st) (auto simp: Let_def split: prod.splits)
    qed (use Pair in simp_all)
  qed
  show "animTime (fst (HandleXREvents s evs)) = animTime s"
  proof (induction evs arbitrary: s)
    case Nil
    show ?case by simp
  next
    case (Cons ev evs)
    obtain s1 c1 where h: "handle_event s ev = (s1, c1)" by (cases "handle_event s ev")
    obtain s2 c2 where r: "HandleXREvents s1 evs = (s2, c2)" by (cases "HandleXREvents s1 evs")
    from Cons [of s1] he [of s ev] h r show ?case
      by simp
  qed
next
  show "clock_increment = Finite (11811160 / 2 ^ 30)"
    by (simp add: clock_increment_def float32_round_increment)
next
  show "float32_add (Finite 0) clock_increment = Finite (11811160 / 2 ^ 30)"
    by (simp add: float32_add_first) (simp add: clock_increment_def float32_round_increment)
qed

theorem end_frame_follows_begin_frame_witness:
  "xrSessionRunning example_state \<and> beginFrame_ok example_frame \<and> arrays_fit example_state
   \<and> (\<exists>s' mid. RenderFrame example_state (example_frame\<lparr>locateViews := None\<rparr>) =
             (s', [XrWaitFrame True, XrBeginFrame True] @ mid
                  @ [XrEndFrame \<lparr>displayTime = 1000,
                        environmentBlendMode = XR_ENVIRONMENT_BLEND_MODE_OPAQUE,
                        layerCount = 0, layers = None\<rparr>], True))
   \<and> (\<exists>s' mid n l. RenderFrame example_state example_frame =
             (s', [XrWaitFrame True, XrBeginFrame True] @ mid
                  @ [XrEndFrame \<lparr>displayTime = 1000,
                        environmentBlendMode = XR_ENVIRONMENT_BLEND_MODE_OPAQUE,
                        layerCount = n, layers = l\<rparr>], True))"
proof -
  have run: "xrSessionRunning example_state"
    by (simp add: example_state_def)
  have w: "waitFrame example_frame = Some \<lparr>predictedDisplayTime = 1000, shouldRender = True\<rparr>"
    "beginFrame_ok example_frame"
    by (simp_all add: example_frame_def)
  have w': "waitFrame (example_frame\<lparr>locateViews := None\<rparr>)
      = Some \<lparr>predictedDisplayTime = 1000, shouldRender = True\<rparr>"
    "beginFrame_ok (example_frame\<lparr>locateViews := None\<rparr>)"
    "locateViews (example_frame\<lparr>locateViews := None\<rparr>) = None"
    by (simp_all add: example_frame_def)
  from end_frame_follows_begin_frame [OF run w'(1,2)] w'(3)
  have a: "\<exists>s' mid. RenderFrame example_state (example_frame\<lparr>locateViews := None\<rparr>) =
             (s', [XrWaitFrame True, XrBeginFrame True] @ mid
                  @ [XrEndFrame \<lparr>displayTime = 1000,
                        environmentBlendMode = XR_ENVIRONMENT_BLEND_MODE_OPAQUE,
                        layerCount = 0, layers = None\<rparr>], True)"
    by auto
  from end_frame_follows_begin_frame [OF run w] example_fit
  have b: "\<exists>s' mid n l. RenderFrame example_state example_frame =
             (s', [XrWaitFrame True, XrBeginFrame True] @ mid
                  @ [XrEndFrame \<lparr>displayTime = 1000,
                        environmentBlendMode = XR_ENVIRONMENT_BLEND_MODE_OPAQUE,
                        layerCount = n, layers = l\<rparr>], True)"
    by auto
  from a b run w(2) example_fit show ?thesis by blast
qed

text \<open>
  Claim C6. In a tick that gets to the loop over the views, from a state whose arrays fit,
  every view is processed (an acquire call is made for each), whatever failed for the
  others, and the tick ends with the end-frame call, which submits one layer. The layer
  declares \<open>viewCount\<close> views, and its array has that many slots: the slot of a view that
  completed acquire and wait is the entry written for it (type, pose, field of view,
  swapchain, rectangle), and the slot of a view whose acquire or wait failed is still
  the zero-filled memory of the allocation, which no written entry equals. The views that
  failed contribute no entry.
\<close>

theorem failed_view_contributes_no_entry:
  assumes "arrays_fit s" "reaches_view_loop s env"
  shows "\<exists>s' pool mid info layer.
      vrSwapchains s = Some pool
    \<and> RenderFrame s env = (s', mid @ [XrEndFrame info], True)
    \<and> (\<forall>i < viewCount s. \<exists>h ok. XrAcquireSwapchainImage i h ok \<in> set mid)
    \<and> layerCount info = 1 \<and> layers info = Some layer
    \<and> layer_viewCount layer = viewCount s
    \<and> length (layer_views layer) = viewCount s
    \<and> (\<forall>i < viewCount s. layer_views layer ! i =
          (if view_completed env i then projection_view (pool ! i) (xrViews s' ! i)
           else zero_ProjectionView))
    \<and> (\<forall>sc v. projection_view sc v \<noteq> zero_ProjectionView)"
proof -
  from assms(2) obtain fs pool located where c: "xrSessionRunning s" "waitFrame env = Some fs"
      "beginFrame_ok env" "shouldRender fs" "0 < viewCount s" "vrSwapchains s = Some pool"
      "locateViews env = Some located"
    by (auto simp: reaches_view_loop_def split: option.splits)
  from RenderFrame_render [OF c assms(1)]
  obtain pvs where r: "RenderFrame s env =
      (located_state s located,
       ([XrWaitFrame True, XrBeginFrame True, XrLocateViews True]
         @ concat (map (view_block env pool) [0..<viewCount s]))
         @ [XrEndFrame (end_info fs 1
              (Some \<lparr>layer_space = xrLocalSpace s, layer_viewCount = viewCount s,
                     layer_views = pvs\<rparr>))], True)"
    and len: "length pvs = viewCount s"
    and ent: "\<forall>i < viewCount s. pvs ! i =
          (if view_completed env i
           then projection_view (pool ! i) (xrViews (located_state s located) ! i)
           else zero_ProjectionView)"
    by auto
  have acq: "\<exists>h ok. XrAcquireSwapchainImage i h ok
       \<in> set ([XrWaitFrame True, XrBeginFrame True, XrLocateViews True]
         @ concat (map (view_block env pool) [0..<viewCount s]))" if "i < viewCount s" for i
  proof -
    have "\<exists>h ok. XrAcquireSwapchainImage i h ok \<in> set (view_block env pool i)"
      by (auto simp: view_block_def Let_def split: option.splits)
    then obtain h ok where "XrAcquireSwapchainImage i h ok \<in> set (view_block env pool i)"
      by blast
    moreover have "i \<in> {0..<viewCount s}" using that by simp
    ultimately have "XrAcquireSwapchainImage i h ok
       \<in> set (concat (map (view_block env pool) [0..<viewCount s]))"
      by auto
    then show ?thesis by auto
  qed
  have ne: "\<forall>sc v. projection_view sc v \<noteq> zero_ProjectionView"
    by (simp add: projection_view_def zero_ProjectionView_def)
  let ?layer = "\<lparr>layer_space = xrLocalSpace s, layer_viewCount = viewCount s,
                     layer_views = pvs\<rparr>"
  have "vrSwapchains s = Some pool
    \<and> RenderFrame s env = (located_state s located,
         ([XrWaitFrame True, XrBeginFrame True, XrLocateViews True]
         @ concat (map (view_block env pool) [0..<viewCount s]))
         @ [XrEndFrame (end_info fs 1 (Some ?layer))], True)
    \<and> (\<forall>i < viewCount s. \<exists>h ok. XrAcquireSwapchainImage i h ok
          \<in> set ([XrWaitFrame True, XrBeginFrame True, XrLocateViews True]
         @ concat (map (view_block env pool) [0..<viewCount s])))
    \<and> layerCount (end_info fs 1 (Some ?layer)) = 1
    \<and> layers (end_info fs 1 (Some ?layer)) = Some ?layer
    \<and> layer_viewCount ?layer = viewCount s
    \<and> length (layer_views ?layer) = viewCount s
    \<and> (\<forall>i < viewCount s. layer_views ?layer ! i =
          (if view_completed env i
           then projection_view (pool ! i) (xrViews (located_state s located) ! i)
           else zero_ProjectionView))
    \<and> (\<forall>sc v. projection_view sc v \<noteq> zero_ProjectionView)"
    using c(6) r acq len ent ne by (simp add: end_info_def)
  then show ?thesis by blast
qed

theorem failed_view_contributes_no_entry_witness:
  "arrays_fit example_state \<and> reaches_view_loop example_state example_frame
   \<and> \<not> view_completed example_frame 0 \<and> view_completed example_frame 1
   \<and> (\<exists>s' mid info layer.
        RenderFrame example_state example_frame = (s', mid @ [XrEndFrame info], True)
      \<and> layers info = Some layer \<and> layer_viewCount layer = 2
      \<and> layer_views layer ! 0 = zero_ProjectionView
      \<and> layer_views layer ! 1 = projection_view (example_pool ! 1) (xrViews s' ! 1))"
proof -
  have v: "\<not> view_completed example_frame 0" "view_completed example_frame 1"
    by (simp_all add: view_completed_def example_frame_def)
  have n: "viewCount example_state = 2" "vrSwapchains example_state = Some example_pool"
    by (simp_all add: example_state_def)
  from failed_view_contributes_no_entry [OF example_fit example_reaches]
  obtain s' pool mid info layer where
    "vrSwapchains example_state = Some pool"
    "RenderFrame example_state example_frame = (s', mid @ [XrEndFrame info], True)"
    "layers info = Some layer" "layer_viewCount layer = viewCount example_state"
    "\<forall>i < viewCount example_state. layer_views layer ! i =
          (if view_completed example_frame i then projection_view (pool ! i) (xrViews s' ! i)
           else zero_ProjectionView)"
    by blast
  then have "RenderFrame example_state example_frame = (s', mid @ [XrEndFrame info], True)
      \<and> layers info = Some layer \<and> layer_viewCount layer = 2
      \<and> layer_views layer ! 0 = zero_ProjectionView
      \<and> layer_views layer ! 1 = projection_view (example_pool ! 1) (xrViews s' ! 1)"
    using v n by auto
  then show ?thesis using example_fit example_reaches v by blast
qed

section \<open>Properties of the session state machine and the main loop\<close>

lemma begin_end_skip:
  "\<forall>c \<in> set xs. \<not> is_session_call c \<Longrightarrow>
   begin_end_alternate b (xs @ ys) = begin_end_alternate b ys"
proof (induction xs)
  case Nil
  show ?case by simp
next
  case (Cons c xs)
  then show ?case by (cases c) simp_all
qed

lemma wait_skip:
  "\<forall>c \<in> set xs. \<not> is_session_call c \<and> \<not> is_wait_frame c \<Longrightarrow>
   wait_only_while_running r (xs @ ys) = wait_only_while_running r ys"
proof (induction xs)
  case Nil
  show ?case by simp
next
  case (Cons c xs)
  then show ?case by (cases c) simp_all
qed

lemma wait_running_skip:
  "\<forall>c \<in> set xs. \<not> is_session_call c \<Longrightarrow>
   wait_only_while_running True (xs @ ys) = wait_only_while_running True ys"
proof (induction xs)
  case Nil
  show ?case by simp
next
  case (Cons c xs)
  then show ?case by (cases c) simp_all
qed

lemma view_loop_kinds:
  "view_loop env pool views idx pv = (pv', calls, ok) \<Longrightarrow>
   \<forall>c \<in> set calls. \<not> is_session_call c \<and> \<not> is_wait_frame c"
proof (induction idx arbitrary: pv pv' calls ok)
  case Nil
  then show ?case by simp
next
  case (Cons j rest)
  then show ?case
    by (auto simp: Let_def split: if_splits option.splits prod.splits)
qed

lemma create_loop_kinds:
  "create_loop env cfgs idx pool views = (pool', views', calls, ok) \<Longrightarrow>
   \<forall>c \<in> set calls. \<not> is_session_call c \<and> \<not> is_wait_frame c"
proof (induction idx arbitrary: pool views pool' views' calls ok)
  case Nil
  then show ?case by simp
next
  case (Cons j rest)
  then show ?case
    by (auto simp: Let_def split: if_splits option.splits prod.splits)
qed

lemma CreateSwapchains_kinds:
  assumes "CreateSwapchains s env = (s', calls, rc)"
  shows "(\<forall>c \<in> set calls. \<not> is_session_call c \<and> \<not> is_wait_frame c)
       \<and> xrSessionRunning s' = xrSessionRunning s"
  using assms create_loop_kinds
  by (fastforce simp: CreateSwapchains_def Let_def split: option.splits prod.splits if_splits)

lemma RenderFrame_kinds:
  assumes "RenderFrame s env = (s', calls, ok)"
  shows "(\<forall>c \<in> set calls. \<not> is_session_call c) \<and> xrSessionRunning s' = xrSessionRunning s
    \<and> (\<not> xrSessionRunning s \<longrightarrow> calls = [])"
  using assms view_loop_kinds
  by (fastforce simp: RenderFrame_def Let_def split: option.splits prod.splits if_splits)

text \<open>One event: the calls keep both monitors satisfied and the invariants.\<close>

lemma handle_event_monitors:
  assumes "handle_event s (e, env) = (s', calls)"
    and "valid_events st (e # es)" and "begun_fits b st"
  shows "\<exists>b' st'. valid_events st' es \<and> begun_fits b' st'
      \<and> (\<forall>rest. begin_end_alternate b (calls @ rest) = begin_end_alternate b' rest)
      \<and> (\<forall>rest. wait_only_while_running (xrSessionRunning s) (calls @ rest)
                 = wait_only_while_running (xrSessionRunning s') rest)"
proof (cases e)
  case (XR_TYPE_EVENT_DATA_SESSION_STATE_CHANGED n)
  with assms(2) have step: "lifecycle_step st n" and v: "valid_events n es" by simp_all
  show ?thesis
  proof (cases "n = XR_SESSION_STATE_READY")
    case True
    with step have st: "st = XR_SESSION_STATE_IDLE" by (auto simp: lifecycle_step_def)
    with assms(3) have nb: "\<not> b" by (simp add: begun_fits_def)
    have fits: "begun_fits True n" using True by (simp add: begun_fits_def)
    show ?thesis
    proof (cases "beginSession_ok env")
      case False
      with assms(1) XR_TYPE_EVENT_DATA_SESSION_STATE_CHANGED True
      have "s' = s" "calls = [XrBeginSession False]" by auto
      with nb v fits show ?thesis by auto
    next
      case ok: True
      obtain s2 cs rc where c: "CreateSwapchains (s\<lparr>xrSessionRunning := True\<rparr>) env = (s2, cs, rc)"
        by (metis prod_cases3)
      from CreateSwapchains_kinds [OF c]
      have k: "\<forall>c \<in> set cs. \<not> is_session_call c \<and> \<not> is_wait_frame c"
        and r2: "xrSessionRunning s2" by simp_all
      from assms(1) XR_TYPE_EVENT_DATA_SESSION_STATE_CHANGED True ok c
      have calls: "calls = XrBeginSession True # cs" and r': "xrSessionRunning s'"
        using r2 by (auto split: if_splits)
      have "begin_end_alternate b (calls @ rest) = begin_end_alternate True rest" for rest
        using nb k by (simp add: calls begin_end_skip)
      moreover have "wait_only_while_running (xrSessionRunning s) (calls @ rest)
                 = wait_only_while_running (xrSessionRunning s') rest" for rest
        using k r' by (simp add: calls wait_skip)
      ultimately show ?thesis using v fits by blast
    qed
  next
    case nr: False
    show ?thesis
    proof (cases "n = XR_SESSION_STATE_STOPPING")
      case True
      with assms(1) XR_TYPE_EVENT_DATA_SESSION_STATE_CHANGED
      have "s' = s\<lparr>xrSessionRunning := False\<rparr>" "calls = [XrEndSession]" by auto
      moreover have "begun_fits False n" by (simp add: begun_fits_def)
      ultimately show ?thesis using v by auto
    next
      case False
      with nr assms(1) XR_TYPE_EVENT_DATA_SESSION_STATE_CHANGED
      have "xrSessionRunning s' = xrSessionRunning s" "calls = []"
        by (cases n; auto)+
      moreover have "begun_fits b n"
        using step assms(3) nr False by (auto simp: lifecycle_step_def begun_fits_def)
      ultimately show ?thesis using v by auto
    qed
  qed
next
  case XR_TYPE_EVENT_DATA_INSTANCE_LOSS_PENDING
  with assms have "valid_events st es" "xrSessionRunning s' = xrSessionRunning s" "calls = []"
    by auto
  with assms(3) show ?thesis by auto
next
  case XR_TYPE_EVENT_DATA_OTHER
  with assms have "valid_events st es" "xrSessionRunning s' = xrSessionRunning s" "calls = []"
    by auto
  with assms(3) show ?thesis by auto
qed

lemma HandleXREvents_monitors:
  "HandleXREvents s evs = (s', calls) \<Longrightarrow>
   valid_events st (map fst evs @ es) \<Longrightarrow> begun_fits b st \<Longrightarrow>
   \<exists>b' st'. valid_events st' es \<and> begun_fits b' st'
      \<and> (\<forall>rest. begin_end_alternate b (calls @ rest) = begin_end_alternate b' rest)
      \<and> (\<forall>rest. wait_only_while_running (xrSessionRunning s) (calls @ rest)
                 = wait_only_while_running (xrSessionRunning s') rest)"
proof (induction evs arbitrary: s s' calls st b)
  case Nil
  then show ?case by auto
next
  case (Cons ev evs)
  obtain e env where ev: "ev = (e, env)" by (cases ev)
  obtain s1 c1 where h: "handle_event s (e, env) = (s1, c1)" by (cases "handle_event s (e, env)")
  obtain s2 c2 where r: "HandleXREvents s1 evs = (s2, c2)" by (cases "HandleXREvents s1 evs")
  from Cons.prems(1) ev h r have res: "s' = s2" "calls = c1 @ c2" by simp_all
  from Cons.prems(2) ev have v: "valid_events st (e # (map fst evs @ es))" by simp
  from handle_event_monitors [OF h v Cons.prems(3)]
  obtain b1 st1 where 1: "valid_events st1 (map fst evs @ es)" "begun_fits b1 st1"
    "\<forall>rest. begin_end_alternate b (c1 @ rest) = begin_end_alternate b1 rest"
    "\<forall>rest. wait_only_while_running (xrSessionRunning s) (c1 @ rest)
                 = wait_only_while_running (xrSessionRunning s1) rest"
    by blast
  from Cons.IH [OF r 1(1,2)]
  obtain b2 st2 where 2: "valid_events st2 es" "begun_fits b2 st2"
    "\<forall>rest. begin_end_alternate b1 (c2 @ rest) = begin_end_alternate b2 rest"
    "\<forall>rest. wait_only_while_running (xrSessionRunning s1) (c2 @ rest)
                 = wait_only_while_running (xrSessionRunning s2) rest"
    by blast
  from 1(3,4) 2(3,4) have
    "\<forall>rest. begin_end_alternate b (calls @ rest) = begin_end_alternate b2 rest"
    "\<forall>rest. wait_only_while_running (xrSessionRunning s) (calls @ rest)
                 = wait_only_while_running (xrSessionRunning s') rest"
    unfolding res by simp_all
  with 2(1,2) show ?case by blast
qed

lemma main_loop_step:
  assumes "\<not> xrShouldQuit s"
    and "HandleXREvents (if sdlQuit t then s\<lparr>xrShouldQuit := True\<rparr> else s) (xrEvents t) = (s1, c1)"
    and "RenderFrame s1 (frame t) = (s2, c2, ok)"
  shows "main_loop s (t # ts) =
     (if ok then (fst (main_loop s2 ts), c1 @ c2 @ snd (main_loop s2 ts)) else (s2, c1 @ c2))"
  using assms by (simp add: Let_def case_prod_unfold)

lemma main_loop_monitors:
  "valid_events st (events_of ticks) \<Longrightarrow> begun_fits b st \<Longrightarrow>
   begin_end_alternate b (snd (main_loop s ticks))
   \<and> wait_only_while_running (xrSessionRunning s) (snd (main_loop s ticks))"
proof (induction ticks arbitrary: s st b)
  case Nil
  show ?case by simp
next
  case (Cons t ts)
  show ?case
  proof (cases "xrShouldQuit s")
    case True
    then show ?thesis by simp
  next
    case False
    let ?s0 = "if sdlQuit t then s\<lparr>xrShouldQuit := True\<rparr> else s"
    have r0: "xrSessionRunning ?s0 = xrSessionRunning s" by simp
    obtain s1 c1 where h: "HandleXREvents ?s0 (xrEvents t) = (s1, c1)"
      by (cases "HandleXREvents ?s0 (xrEvents t)")
    obtain s2 c2 ok where r: "RenderFrame s1 (frame t) = (s2, c2, ok)"
      by (metis prod_cases3)
    have v: "valid_events st (map fst (xrEvents t) @ events_of ts)"
      using Cons.prems(1) by (simp add: events_of_def)
    from HandleXREvents_monitors [OF h v Cons.prems(2)]
    obtain b1 st1 where 1: "valid_events st1 (events_of ts)" "begun_fits b1 st1"
      "\<forall>rest. begin_end_alternate b (c1 @ rest) = begin_end_alternate b1 rest"
      "\<forall>rest. wait_only_while_running (xrSessionRunning s) (c1 @ rest)
                 = wait_only_while_running (xrSessionRunning s1) rest"
      unfolding r0 by blast
    from RenderFrame_kinds [OF r]
    have k: "\<forall>c \<in> set c2. \<not> is_session_call c" "xrSessionRunning s2 = xrSessionRunning s1"
      "\<not> xrSessionRunning s1 \<longrightarrow> c2 = []" by simp_all
    have be2: "begin_end_alternate b1 (c2 @ rest) = begin_end_alternate b1 rest" for rest
      using k(1) by (rule begin_end_skip)
    have w2: "wait_only_while_running (xrSessionRunning s1) (c2 @ rest)
        = wait_only_while_running (xrSessionRunning s2) rest" for rest
    proof (cases "xrSessionRunning s1")
      case True
      with k(2) wait_running_skip [OF k(1)] show ?thesis by simp
    next
      case False
      with k(2,3) show ?thesis by simp
    qed
    note ih = Cons.IH [OF 1(1,2), of s2]
    note step = main_loop_step [OF False h r, of ts]
    show ?thesis
    proof (cases ok)
      case True
      have "snd (main_loop s (t # ts)) = c1 @ c2 @ snd (main_loop s2 ts)"
        unfolding step using True by (simp only: if_True snd_conv)
      moreover have "begin_end_alternate b (c1 @ c2 @ snd (main_loop s2 ts))"
        using 1(3) be2 ih by simp
      moreover have "wait_only_while_running (xrSessionRunning s) (c1 @ c2 @ snd (main_loop s2 ts))"
        using 1(4) w2 ih by simp
      ultimately show ?thesis by (simp only:)
    next
      case False
      have "snd (main_loop s (t # ts)) = c1 @ c2 @ []"
        unfolding step using False by (simp only: if_False snd_conv append_Nil2)
      moreover have "begin_end_alternate b (c1 @ c2 @ [])"
        using 1(3) be2 [of "[]"] by (simp del: append_Nil2)
      moreover have "wait_only_while_running (xrSessionRunning s) (c1 @ c2 @ [])"
        using 1(4) w2 [of "[]"] by (simp del: append_Nil2)
      ultimately show ?thesis by (simp only:)
    qed
  qed
qed

lemma upt2: "[0..<2] = [0, 1]"
  by (simp add: upt_rec)

lemma ready_example:
  "handle_event s (XR_TYPE_EVENT_DATA_SESSION_STATE_CHANGED XR_SESSION_STATE_READY, example_session f)
   = (s\<lparr>xrSessionRunning := True, viewCount := 2,
        vrSwapchains := Some
          [\<lparr>swapchain = f, images = 20 + f, size = \<lparr>width = 1000, height = 1000\<rparr>,
            format = 1, imageCount = 3\<rparr>,
           \<lparr>swapchain = f + 1, images = 20 + f + 1, size = \<lparr>width = 1000, height = 1000\<rparr>,
            format = 1, imageCount = 3\<rparr>],
        xrViews := [zero_XrView\<lparr>pose := zero_XrPosef\<lparr>orientation :=
                       \<lparr>quat_x = 0, quat_y = 0, quat_z = 0, quat_w = 1\<rparr>\<rparr>\<rparr>,
                    zero_XrView\<lparr>pose := zero_XrPosef\<lparr>orientation :=
                       \<lparr>quat_x = 0, quat_y = 0, quat_z = 0, quat_w = 1\<rparr>\<rparr>\<rparr>],
        pipeline := True\<rparr>,
      [XrBeginSession True, XrEnumerateViewConfigurationViews True,
       XrEnumerateViewConfigurationViews True,
       SDL_CreateGPUXRSwapchain 0 (Some f), XrEnumerateSwapchainImages 0 True,
       SDL_CreateGPUXRSwapchain 1 (Some (f + 1)), XrEnumerateSwapchainImages 1 True]
      @ (if pipeline s then [] else [CreatePipeline True, CreateCubeBuffers True]))"
  by (simp add: example_session_def CreateSwapchains_def upt2 Let_def zero_VRSwapchain_def
      zero_XrView_def zero_XrPosef_def)


text \<open>
  Claim C7 fails on the code. The events idle, ready, synchronized, stopping, idle, ready
  follow the life cycle; at the second ready event the pool of the first (handles 11 and
  12) exists, and \<open>CreateSwapchains\<close> is called all the same (line 528, with no test of
  \<open>vrSwapchains\<close>): two more swapchains are created (13 and 14), the array is replaced, and
  \<open>Cleanup\<close> destroys only the second pair.
\<close>

theorem second_ready_creates_second_pool:
  "valid_events XR_SESSION_STATE_UNKNOWN (events_of reready_ticks)
   \<and> created_handles (snd (main_loop (initial_state 5 6) reready_ticks)) = [11, 12, 13, 14]
   \<and> map swapchain (the (vrSwapchains (fst (main_loop (initial_state 5 6) reready_ticks))))
       = [13, 14]
   \<and> destroyed_handles (Cleanup (fst (main_loop (initial_state 5 6) reready_ticks))) = [13, 14]"
  by (simp add: reready_ticks_def events_of_def lifecycle_step_def initial_state_def
      ready_example RenderFrame_def example_frame_def Let_def Cleanup_def upt2
      del: handle_event.simps(1))

text \<open>
  Claim C5, as stated, fails. With two views, the first swapchain created (handle 11) and
  the second failing, the array stays in place with the handle 11 in its first entry and a
  zero second entry, the running flag stays set, and the frame routine of the same pass of
  the main loop renders into the first view and calls acquire on the null handle of the
  second.
\<close>

theorem failed_creation_keeps_partial_pool:
  "createSwapchain failing_session 0 = Some (1, 11, 31)
   \<and> createSwapchain failing_session 1 = None
   \<and> xrSessionRunning (fst (main_loop (initial_state 5 6) [failing_tick_ready]))
   \<and> map swapchain (the (vrSwapchains (fst (main_loop (initial_state 5 6) [failing_tick_ready]))))
       = [11, 0]
   \<and> filter (about_view 0) (snd (main_loop (initial_state 5 6) [failing_tick_ready]))
       = [XrAcquireSwapchainImage 0 11 True, XrWaitSwapchainImage 0 11 True,
          SDL_RenderPass 0 0, XrReleaseSwapchainImage 0 11]
   \<and> filter (about_view 1) (snd (main_loop (initial_state 5 6) [failing_tick_ready]))
       = [XrAcquireSwapchainImage 1 0 False]"
  by (simp add: failing_tick_ready_def failing_session_def example_session_def
      initial_state_def CreateSwapchains_def RenderFrame_def example_frame_def Let_def upt2
      zero_VRSwapchain_def zero_XrView_def zero_XrPosef_def)

lemma create_loop_frame:
  "create_loop env cfgs idx pool views = (pool', views', calls, ok) \<Longrightarrow>
   length pool' = length pool \<and> (\<forall>j. j \<notin> set idx \<longrightarrow> pool' ! j = pool ! j)"
proof (induction idx arbitrary: pool views pool' views' calls ok)
  case Nil
  then show ?case by simp
next
  case (Cons i rest)
  show ?case
  proof (cases "createSwapchain env i")
    case None
    with Cons.prems show ?thesis by (simp add: Let_def)
  next
    case (Some r)
    obtain fmt sc imgs where r: "r = (fmt, sc, imgs)" by (cases r)
    let ?entry = "(pool ! i)\<lparr>format := fmt, swapchain := sc, images := imgs,
        imageCount := (case enumerateImages env i of None \<Rightarrow> 3 | Some n \<Rightarrow> n),
        size := \<lparr>width = sint (word_of_nat (fst (cfgs ! i)) :: 32 word),
                 height = sint (word_of_nat (snd (cfgs ! i)) :: 32 word)\<rparr>\<rparr>"
    let ?v = "views[i := (views ! i)\<lparr>pose := (pose (views ! i))\<lparr>orientation :=
                 (orientation (pose (views ! i)))\<lparr>quat_w := 1\<rparr>\<rparr>\<rparr>]"
    obtain c' where rec: "create_loop env cfgs rest (pool[i := ?entry]) ?v = (pool', views', c', ok)"
      using Cons.prems Some r by (auto simp: Let_def split: prod.splits)
    from Cons.IH [OF rec] show ?thesis by auto
  qed
qed

lemma create_loop_handles:
  "distinct idx \<Longrightarrow> \<forall>i \<in> set idx. i < length pool \<and> swapchain (pool ! i) = 0 \<Longrightarrow>
   create_loop env cfgs idx pool views = (pool', views', calls, ok) \<Longrightarrow>
   map (\<lambda>i. swapchain (pool' ! i)) idx
     = created_handles calls @ replicate (length idx - length (created_handles calls)) 0
   \<and> length (created_handles calls) \<le> length idx
   \<and> (ok = (\<forall>i \<in> set idx. createSwapchain env i \<noteq> None))"
proof (induction idx arbitrary: pool views pool' views' calls ok)
  case Nil
  then show ?case by simp
next
  case (Cons i rest)
  show ?case
  proof (cases "createSwapchain env i")
    case None
    with Cons.prems(3) have res: "pool' = pool" "calls = [SDL_CreateGPUXRSwapchain i None]" "\<not> ok"
      by (simp_all add: Let_def)
    have "map (\<lambda>i. swapchain (pool ! i)) (i # rest) = map (\<lambda>i. 0) (i # rest)"
      using Cons.prems(2) by (intro map_cong) auto
    then show ?thesis using res None by (simp add: map_replicate_const)
  next
    case (Some r)
    obtain fmt sc imgs where r: "r = (fmt, sc, imgs)" by (cases r)
    let ?entry = "(pool ! i)\<lparr>format := fmt, swapchain := sc, images := imgs,
        imageCount := (case enumerateImages env i of None \<Rightarrow> 3 | Some n \<Rightarrow> n),
        size := \<lparr>width = sint (word_of_nat (fst (cfgs ! i)) :: 32 word),
                 height = sint (word_of_nat (snd (cfgs ! i)) :: 32 word)\<rparr>\<rparr>"
    let ?v = "views[i := (views ! i)\<lparr>pose := (pose (views ! i))\<lparr>orientation :=
                 (orientation (pose (views ! i)))\<lparr>quat_w := 1\<rparr>\<rparr>\<rparr>]"
    obtain c' where rec: "create_loop env cfgs rest (pool[i := ?entry]) ?v = (pool', views', c', ok)"
      and calls: "calls = SDL_CreateGPUXRSwapchain i (Some sc)
             # XrEnumerateSwapchainImages i (enumerateImages env i \<noteq> None) # c'"
      using Cons.prems(3) Some r by (auto simp: Let_def split: prod.splits)
    have d: "distinct rest" "i \<notin> set rest" using Cons.prems(1) by simp_all
    have z: "\<forall>j \<in> set rest. j < length (pool[i := ?entry])
        \<and> swapchain (pool[i := ?entry] ! j) = 0"
      using Cons.prems(2) d(2) by (auto simp: nth_list_update)
    note ih = Cons.IH [OF d(1) z rec]
    have fr: "pool' ! i = pool[i := ?entry] ! i" "length pool' = length pool"
      using create_loop_frame [OF rec] d(2) by simp_all
    have "i < length pool" using Cons.prems(2) by simp
    then have "swapchain (pool' ! i) = sc" using fr by simp
    with ih Some r show ?thesis by (simp add: calls)
  qed
qed


lemma destroyed_handles_append:
  "destroyed_handles (xs @ ys) = destroyed_handles xs @ destroyed_handles ys"
proof (induction xs)
  case Nil
  show ?case by simp
next
  case (Cons c xs)
  then show ?case by (cases c) simp_all
qed

lemma created_handles_append:
  "created_handles (xs @ ys) = created_handles xs @ created_handles ys"
  by (induction xs rule: created_handles.induct) simp_all

lemma destroy_loop_handles:
  "\<forall>i \<in> set idx. i < length pool \<Longrightarrow>
   destroyed_handles (destroy_loop pool idx)
     = filter (\<lambda>h. h \<noteq> 0) (map (\<lambda>i. swapchain (pool ! i)) idx)
   \<and> MemoryFault \<notin> set (destroy_loop pool idx)"
  by (induction idx) (simp_all add: destroyed_handles_append)

lemma Cleanup_handles:
  assumes "vrSwapchains s = Some pool" "viewCount s = length pool"
  shows "destroyed_handles (Cleanup s) = filter (\<lambda>h. h \<noteq> 0) (map swapchain pool)"
proof -
  have "\<forall>i \<in> set [0..<length pool]. i < length pool" by simp
  from destroy_loop_handles [OF this]
  have d: "destroyed_handles (destroy_loop pool [0..<length pool])
     = filter (\<lambda>h. h \<noteq> 0) (map (\<lambda>i. swapchain (pool ! i)) [0..<length pool])"
    and m: "MemoryFault \<notin> set (destroy_loop pool [0..<length pool])" by simp_all
  have "map swapchain pool = map swapchain (map ((!) pool) [0..<length pool])"
    by (simp only: map_nth)
  also have "\<dots> = map (\<lambda>i. swapchain (pool ! i)) [0..<length pool]"
    by (simp only: map_map o_def)
  finally have "map (\<lambda>i. swapchain (pool ! i)) [0..<length pool] = map swapchain pool"
    by (rule sym)
  with d m assms show ?thesis
    by (simp add: Cleanup_def Let_def destroyed_handles_append)
qed

lemma main_loop_quit: "xrShouldQuit s \<Longrightarrow> main_loop s ticks = (s, [])"
  by (cases ticks) simp_all

text \<open>
  Claim C2. When the events that the ticks deliver follow the session life cycle, the run
  of the main loop from the initial state never calls \<open>xrBeginSession\<close> twice without
  an \<open>xrEndSession\<close> between the two calls, and calls \<open>xrWaitFrame\<close> only while the session
  runs; the frame routine, entered while the running flag is false, returns at once,
  before any call to the compositor.
\<close>

theorem session_calls_follow_life_cycle:
  assumes "valid_events XR_SESSION_STATE_UNKNOWN (events_of ticks)"
  shows "begin_end_alternate False (snd (main_loop (initial_state session space) ticks))
    \<and> wait_only_while_running False (snd (main_loop (initial_state session space) ticks))
    \<and> (\<not> xrSessionRunning s \<longrightarrow> RenderFrame s env = (s, [], True))"
proof -
  have f: "begun_fits False XR_SESSION_STATE_UNKNOWN"
    by (simp add: begun_fits_def)
  have r: "xrSessionRunning (initial_state session space) = False"
    by (simp add: initial_state_def)
  from main_loop_monitors [OF assms f, of "initial_state session space"]
  show ?thesis unfolding r by (simp add: RenderFrame_idle)
qed

theorem session_calls_follow_life_cycle_witness:
  "valid_events XR_SESSION_STATE_UNKNOWN (events_of reready_ticks)
   \<and> begin_end_alternate False (snd (main_loop (initial_state 5 6) reready_ticks))
   \<and> wait_only_while_running False (snd (main_loop (initial_state 5 6) reready_ticks))"
proof -
  have v: "valid_events XR_SESSION_STATE_UNKNOWN (events_of reready_ticks)"
    by (simp add: reready_ticks_def events_of_def lifecycle_step_def)
  from session_calls_follow_life_cycle [OF v, of 5 6] v show ?thesis by blast
qed

lemma view_loop_creates_nothing:
  "view_loop env pool views idx pv = (pv', calls, ok) \<Longrightarrow> created_handles calls = []"
proof (induction idx arbitrary: pv pv' calls ok)
  case Nil
  then show ?case by simp
next
  case (Cons j rest)
  then show ?case
    by (auto simp: Let_def split: if_splits option.splits prod.splits)
qed

lemma RenderFrame_keeps_pool:
  assumes "RenderFrame s env = (s', calls, ok)"
  shows "vrSwapchains s' = vrSwapchains s \<and> viewCount s' = viewCount s
    \<and> xrShouldQuit s' = xrShouldQuit s \<and> created_handles calls = []"
proof -
  have st: "vrSwapchains (fst (RenderFrame s env)) = vrSwapchains s
      \<and> viewCount (fst (RenderFrame s env)) = viewCount s
      \<and> xrShouldQuit (fst (RenderFrame s env)) = xrShouldQuit s"
    by (auto simp: RenderFrame_def Let_def split: option.splits prod.splits if_splits)
  have cr: "created_handles (fst (snd (RenderFrame s env))) = []"
    by (auto simp: RenderFrame_def Let_def created_handles_append
        split: option.splits prod.splits if_splits dest: view_loop_creates_nothing)
  from st cr assms show ?thesis by simp
qed

lemma handle_event_not_ready:
  assumes "fst ev \<noteq> XR_TYPE_EVENT_DATA_SESSION_STATE_CHANGED XR_SESSION_STATE_READY"
    and "handle_event s ev = (s', calls)"
  shows "vrSwapchains s' = vrSwapchains s \<and> viewCount s' = viewCount s
    \<and> (xrShouldQuit s \<longrightarrow> xrShouldQuit s') \<and> created_handles calls = []"
proof (cases ev)
  case (Pair e env)
  show ?thesis
  proof (cases e)
    case (XR_TYPE_EVENT_DATA_SESSION_STATE_CHANGED st)
    with Pair assms show ?thesis by (cases st) auto
  next
    case XR_TYPE_EVENT_DATA_INSTANCE_LOSS_PENDING
    with Pair assms show ?thesis by auto
  next
    case XR_TYPE_EVENT_DATA_OTHER
    with Pair assms show ?thesis by auto
  qed
qed

lemma HandleXREvents_not_ready:
  "\<forall>ev \<in> set evs. fst ev \<noteq> XR_TYPE_EVENT_DATA_SESSION_STATE_CHANGED XR_SESSION_STATE_READY \<Longrightarrow>
   HandleXREvents s evs = (s', calls) \<Longrightarrow>
   vrSwapchains s' = vrSwapchains s \<and> viewCount s' = viewCount s
    \<and> (xrShouldQuit s \<longrightarrow> xrShouldQuit s') \<and> created_handles calls = []"
proof (induction evs arbitrary: s s' calls)
  case Nil
  then show ?case by simp
next
  case (Cons ev evs)
  obtain s1 c1 where h: "handle_event s ev = (s1, c1)" by (cases "handle_event s ev")
  obtain s2 c2 where r: "HandleXREvents s1 evs = (s2, c2)" by (cases "HandleXREvents s1 evs")
  from Cons.prems(2) h r have res: "s' = s2" "calls = c1 @ c2" by simp_all
  have e: "fst ev \<noteq> XR_TYPE_EVENT_DATA_SESSION_STATE_CHANGED XR_SESSION_STATE_READY"
    and es: "\<forall>ev \<in> set evs. fst ev \<noteq> XR_TYPE_EVENT_DATA_SESSION_STATE_CHANGED XR_SESSION_STATE_READY"
    using Cons.prems(1) by simp_all
  from handle_event_not_ready [OF e h] Cons.IH [OF es r] show ?case
    unfolding res by (simp add: created_handles_append)
qed

lemma HandleXREvents_append:
  "HandleXREvents s xs = (s1, c1) \<Longrightarrow> HandleXREvents s1 ys = (s2, c2) \<Longrightarrow>
   HandleXREvents s (xs @ ys) = (s2, c1 @ c2)"
proof (induction xs arbitrary: s s1 c1)
  case Nil
  then show ?case by simp
next
  case (Cons ev xs)
  obtain sa ca where h: "handle_event s ev = (sa, ca)" by (cases "handle_event s ev")
  obtain sb cb where r: "HandleXREvents sa xs = (sb, cb)" by (cases "HandleXREvents sa xs")
  from Cons.prems(1) h r have res: "s1 = sb" "c1 = ca @ cb" by simp_all
  from Cons.IH [OF r [folded res(1)] Cons.prems(2)] h show ?case
    unfolding res by simp
qed

lemma failing_ready_event:
  assumes "beginSession_ok env" "enumerateCount env = Some n"
    "enumerateViews env = Some answered"
    "k < length (take n answered)" "createSwapchain env k = None"
  shows "\<exists>s' calls pool.
      handle_event s (XR_TYPE_EVENT_DATA_SESSION_STATE_CHANGED XR_SESSION_STATE_READY, env)
        = (s', calls)
    \<and> xrShouldQuit s' \<and> xrSessionRunning s'
    \<and> vrSwapchains s' = Some pool \<and> length pool = viewCount s'
    \<and> map swapchain pool
        = created_handles calls @ replicate (length pool - length (created_handles calls)) 0"
proof -
  let ?m = "length (take n answered)"
  obtain pool views lc ok where cl:
    "create_loop env (take n answered) [0..<?m] (replicate ?m zero_VRSwapchain)
       (replicate ?m zero_XrView) = (pool, views, lc, ok)"
    by (metis prod_cases4)
  have z: "\<forall>i \<in> set [0..<?m]. i < length (replicate ?m zero_VRSwapchain)
      \<and> swapchain (replicate ?m zero_VRSwapchain ! i) = 0"
    by (simp add: zero_VRSwapchain_def)
  from create_loop_handles [OF distinct_upt z cl]
  have h: "map (\<lambda>i. swapchain (pool ! i)) [0..<?m]
       = created_handles lc @ replicate (?m - length (created_handles lc)) 0"
    and ok: "ok = (\<forall>i \<in> set [0..<?m]. createSwapchain env i \<noteq> None)"
    by simp_all
  have "k \<in> set [0..<?m]" using assms(4) by simp
  with assms(5) have "\<not> (\<forall>i \<in> set [0..<?m]. createSwapchain env i \<noteq> None)" by blast
  with ok have nok: "\<not> ok" by blast
  have len: "length pool = ?m" using create_loop_frame [OF cl] by simp
  have "map swapchain pool = map swapchain (map ((!) pool) [0..<length pool])"
    by (simp only: map_nth)
  also have "\<dots> = map (\<lambda>i. swapchain (pool ! i)) [0..<?m]"
    unfolding len by (simp only: map_map o_def)
  finally have mp: "map swapchain pool
       = created_handles lc @ replicate (length pool - length (created_handles lc)) 0"
    using h len by simp
  let ?s' = "s\<lparr>xrSessionRunning := True, viewCount := ?m, vrSwapchains := Some pool,
               xrViews := views, xrShouldQuit := True\<rparr>"
  let ?calls = "XrBeginSession True # XrEnumerateViewConfigurationViews True
      # XrEnumerateViewConfigurationViews True # lc"
  have cs: "CreateSwapchains (s\<lparr>xrSessionRunning := True\<rparr>) env =
      (s\<lparr>xrSessionRunning := True, viewCount := ?m, vrSwapchains := Some pool,
         xrViews := views\<rparr>,
       [XrEnumerateViewConfigurationViews True, XrEnumerateViewConfigurationViews True] @ lc, 1)"
    using assms(2,3) cl nok by (simp add: CreateSwapchains_def Let_def)
  have he: "handle_event s
      (XR_TYPE_EVENT_DATA_SESSION_STATE_CHANGED XR_SESSION_STATE_READY, env) = (?s', ?calls)"
    using assms(1) cs by simp
  have cr: "created_handles ?calls = created_handles lc" by simp
  have q: "xrShouldQuit ?s'" "xrSessionRunning ?s'" "vrSwapchains ?s' = Some pool"
    "viewCount ?s' = length pool"
    using len by simp_all
  have "handle_event s
      (XR_TYPE_EVENT_DATA_SESSION_STATE_CHANGED XR_SESSION_STATE_READY, env) = (?s', ?calls)
    \<and> xrShouldQuit ?s' \<and> xrSessionRunning ?s'
    \<and> vrSwapchains ?s' = Some pool \<and> length pool = viewCount ?s'
    \<and> map swapchain pool
        = created_handles ?calls @ replicate (length pool - length (created_handles ?calls)) 0"
    using he q unfolding cr using mp by (simp only: simp_thms)
  then show ?thesis by blast
qed

text \<open>
  Claim C5, amended. When the session begins on a ready event and the creation of the
  swapchain of some view \<open>k\<close> fails, the partly built pool stays in the global state: its
  entries hold the handles created, in order, followed by zero handles. The state machine
  sets the should-quit flag (the running flag is set too), so the pass of the main loop
  in which the event is handled is the last: the ticks after it are not run. When no
  further ready event is handled in the rest of that pass, the state in which the loop
  ends holds that pool, the pass creates no swapchain after the failure, and \<open>Cleanup\<close>,
  run on the state in which the loop ends, destroys exactly the handles created by the
  failed creation that are not null. (A pool created before the failing event is the
  matter of claim C7.)
\<close>

theorem failed_creation_quits_and_cleanup_destroys:
  assumes "\<not> xrShouldQuit s"
    and "xrEvents t = pre
           @ (XR_TYPE_EVENT_DATA_SESSION_STATE_CHANGED XR_SESSION_STATE_READY, env) # post"
    and "\<forall>ev \<in> set post.
           fst ev \<noteq> XR_TYPE_EVENT_DATA_SESSION_STATE_CHANGED XR_SESSION_STATE_READY"
    and "beginSession_ok env" "enumerateCount env = Some n"
    "enumerateViews env = Some answered"
    "k < length (take n answered)" "createSwapchain env k = None"
  shows "\<exists>s0 calls0 s1 calls pool.
      HandleXREvents (if sdlQuit t then s\<lparr>xrShouldQuit := True\<rparr> else s) pre = (s0, calls0)
    \<and> handle_event s0 (XR_TYPE_EVENT_DATA_SESSION_STATE_CHANGED XR_SESSION_STATE_READY, env)
        = (s1, calls)
    \<and> xrShouldQuit s1 \<and> xrSessionRunning s1
    \<and> vrSwapchains s1 = Some pool \<and> length pool = viewCount s1
    \<and> map swapchain pool
        = created_handles calls @ replicate (length pool - length (created_handles calls)) 0
    \<and> main_loop s (t # ts) = main_loop s [t]
    \<and> xrShouldQuit (fst (main_loop s (t # ts)))
    \<and> vrSwapchains (fst (main_loop s (t # ts))) = Some pool
    \<and> created_handles (snd (main_loop s (t # ts)))
        = created_handles calls0 @ created_handles calls
    \<and> destroyed_handles (Cleanup (fst (main_loop s (t # ts))))
        = filter (\<lambda>h. h \<noteq> 0) (created_handles calls)"
proof -
  let ?sq = "if sdlQuit t then s\<lparr>xrShouldQuit := True\<rparr> else s"
  let ?ready = "(XR_TYPE_EVENT_DATA_SESSION_STATE_CHANGED XR_SESSION_STATE_READY, env)"
  obtain s0 calls0 where h0: "HandleXREvents ?sq pre = (s0, calls0)"
    by (cases "HandleXREvents ?sq pre")
  from failing_ready_event [OF assms(4-8), of s0]
  obtain s1 calls pool where h1: "handle_event s0 ?ready = (s1, calls)"
    and q1: "xrShouldQuit s1" and r1: "xrSessionRunning s1"
    and p1: "vrSwapchains s1 = Some pool" and l1: "length pool = viewCount s1"
    and m1: "map swapchain pool
        = created_handles calls @ replicate (length pool - length (created_handles calls)) 0"
    by blast
  obtain s2 calls2 where h2: "HandleXREvents s1 post = (s2, calls2)"
    by (cases "HandleXREvents s1 post")
  from HandleXREvents_not_ready [OF assms(3) h2] q1 p1 l1
  have k2: "vrSwapchains s2 = Some pool" "viewCount s2 = length pool" "xrShouldQuit s2"
    "created_handles calls2 = []"
    by simp_all
  have hr: "HandleXREvents s0 (?ready # post) = (s2, calls @ calls2)"
    using h1 h2 by (simp del: handle_event.simps)
  have hall: "HandleXREvents ?sq (xrEvents t) = (s2, calls0 @ calls @ calls2)"
    unfolding assms(2) by (rule HandleXREvents_append [OF h0 hr])
  obtain s3 calls3 ok where rf: "RenderFrame s2 (frame t) = (s3, calls3, ok)"
    by (metis prod_cases3)
  from RenderFrame_keeps_pool [OF rf] k2
  have k3: "vrSwapchains s3 = Some pool" "viewCount s3 = length pool" "xrShouldQuit s3"
    "created_handles calls3 = []"
    by simp_all
  have stop: "main_loop s3 us = (s3, [])" for us
    by (rule main_loop_quit [OF k3(3)])
  have ml: "main_loop s (t # us) = (s3, (calls0 @ calls @ calls2) @ calls3)" for us
    unfolding main_loop_step [OF assms(1) hall rf, of us] stop
    by (simp only: fst_conv snd_conv append_Nil2 if_cancel)
  have cu: "destroyed_handles (Cleanup s3) = filter (\<lambda>h. h \<noteq> 0) (map swapchain pool)"
    by (rule Cleanup_handles [OF k3(1,2)])
  have fl: "filter (\<lambda>h. h \<noteq> 0) (map swapchain pool)
       = filter (\<lambda>h. h \<noteq> 0) (created_handles calls)"
    unfolding m1 by simp
  have cr: "created_handles ((calls0 @ calls @ calls2) @ calls3)
      = created_handles calls0 @ created_handles calls"
    by (simp add: created_handles_append k2(4) k3(4))
  have "HandleXREvents ?sq pre = (s0, calls0)
    \<and> handle_event s0 ?ready = (s1, calls)
    \<and> xrShouldQuit s1 \<and> xrSessionRunning s1
    \<and> vrSwapchains s1 = Some pool \<and> length pool = viewCount s1
    \<and> map swapchain pool
        = created_handles calls @ replicate (length pool - length (created_handles calls)) 0
    \<and> main_loop s (t # ts) = main_loop s [t]
    \<and> xrShouldQuit (fst (main_loop s (t # ts)))
    \<and> vrSwapchains (fst (main_loop s (t # ts))) = Some pool
    \<and> created_handles (snd (main_loop s (t # ts)))
        = created_handles calls0 @ created_handles calls
    \<and> destroyed_handles (Cleanup (fst (main_loop s (t # ts))))
        = filter (\<lambda>h. h \<noteq> 0) (created_handles calls)"
    unfolding ml fst_conv snd_conv cr cu fl
    using h0 h1 q1 r1 p1 l1 m1 k3(1,3) by (simp only: simp_thms)
  then show ?thesis by blast
qed

theorem failed_creation_quits_and_cleanup_destroys_witness:
  "\<not> xrShouldQuit (initial_state 5 6)
   \<and> createSwapchain failing_session 1 = None
   \<and> main_loop (initial_state 5 6) [failing_tick_ready, good_tick]
       = main_loop (initial_state 5 6) [failing_tick_ready]
   \<and> xrShouldQuit (fst (main_loop (initial_state 5 6) [failing_tick_ready, good_tick]))
   \<and> destroyed_handles
        (Cleanup (fst (main_loop (initial_state 5 6) [failing_tick_ready, good_tick])))
       = filter (\<lambda>h. h \<noteq> 0)
           (created_handles (snd (main_loop (initial_state 5 6) [failing_tick_ready, good_tick])))"
proof -
  have q: "\<not> xrShouldQuit (initial_state 5 6)"
    by (simp add: initial_state_def)
  have e: "xrEvents failing_tick_ready = []
      @ (XR_TYPE_EVENT_DATA_SESSION_STATE_CHANGED XR_SESSION_STATE_READY, failing_session) # []"
    by (simp add: failing_tick_ready_def)
  have p: "\<forall>ev \<in> set []. fst ev
      \<noteq> XR_TYPE_EVENT_DATA_SESSION_STATE_CHANGED XR_SESSION_STATE_READY"
    by simp
  have a: "beginSession_ok failing_session" "enumerateCount failing_session = Some 2"
    "enumerateViews failing_session = Some [(1000, 1000), (1000, 1000)]"
    "1 < length (take 2 [(1000::nat, 1000::nat), (1000, 1000)])"
    "createSwapchain failing_session 1 = None"
    by (simp_all add: failing_session_def example_session_def)
  from failed_creation_quits_and_cleanup_destroys [OF q e p a, of "[good_tick]"]
  obtain s0 calls0 calls where
    0: "HandleXREvents (if sdlQuit failing_tick_ready
          then (initial_state 5 6)\<lparr>xrShouldQuit := True\<rparr> else initial_state 5 6) [] = (s0, calls0)"
    and 1: "main_loop (initial_state 5 6) [failing_tick_ready, good_tick]
       = main_loop (initial_state 5 6) [failing_tick_ready]"
    and 2: "xrShouldQuit (fst (main_loop (initial_state 5 6) [failing_tick_ready, good_tick]))"
    and 3: "created_handles (snd (main_loop (initial_state 5 6) [failing_tick_ready, good_tick]))
        = created_handles calls0 @ created_handles calls"
    and 4: "destroyed_handles
        (Cleanup (fst (main_loop (initial_state 5 6) [failing_tick_ready, good_tick])))
        = filter (\<lambda>h. h \<noteq> 0) (created_handles calls)"
    by blast
  from 0 have "calls0 = []" by simp
  with 3 4 have "destroyed_handles
        (Cleanup (fst (main_loop (initial_state 5 6) [failing_tick_ready, good_tick])))
       = filter (\<lambda>h. h \<noteq> 0)
           (created_handles (snd (main_loop (initial_state 5 6) [failing_tick_ready, good_tick])))"
    by (simp only: created_handles.simps append_Nil)
  with q a(5) 1 2 show ?thesis by (simp only: simp_thms)
qed

end
